theory Spec2Isabelle
  imports Complex_Main
begin

section \<open>Utilities of App.jsx\<close>

text \<open>
  JavaScript numbers are modelled as follows: grid coordinates, ticks and distances are
  integers (\<open>int\<close>); rewards, probabilities and rollout scores are exact reals, an
  idealisation of IEEE doubles.  A cell key, the string \<^verbatim>\<open>`${x},${y}`\<close>, is
  the pair \<open>(x, y)\<close>: on integers \<open>keyOf\<close> is injective and
  \<^verbatim>\<open>key.split(',').map(Number)\<close> inverts it.
\<close>

type_synonym pos = "int \<times> int"
type_synonym key = "int \<times> int"

definition clamp :: "int \<Rightarrow> int \<Rightarrow> int \<Rightarrow> int" where
  "clamp v a b = max a (min b v)"

definition manhattan :: "pos \<Rightarrow> pos \<Rightarrow> int" where
  "manhattan a b = \<bar>fst a - fst b\<bar> + \<bar>snd a - snd b\<bar>"

definition keyOf :: "pos \<Rightarrow> key" where
  "keyOf p = (fst p, snd p)"

datatype dir = UP | RIGHT | DOWN | LEFT

fun dx :: "dir \<Rightarrow> int" where
  "dx UP = 0"
| "dx RIGHT = 1"
| "dx DOWN = 0"
| "dx LEFT = - 1"

fun dy :: "dir \<Rightarrow> int" where
  "dy UP = - 1"
| "dy RIGHT = 0"
| "dy DOWN = 1"
| "dy LEFT = 0"

definition DIRS :: "dir list" where
  "DIRS = [UP, RIGHT, DOWN, LEFT]"

text \<open>
  \<^verbatim>\<open>Math.random()\<close> returns a number in \<open>[0, 1)\<close>.  The source of randomness is an
  oracle: the \<open>k\<close>-th call of \<^verbatim>\<open>Math.random()\<close> since some fixed moment returns
  \<open>draw (rnd k)\<close>, and every function that draws takes the index of the next call and
  returns the index after its last one.
\<close>

typedef unit_real = "{r::real. 0 \<le> r \<and> r < 1}"
  morphisms draw Draw
  by (rule exI [of _ 0]) simp

type_synonym rng = "nat \<Rightarrow> unit_real"

text \<open>
  \<^verbatim>\<open>choice = (arr)=>arr[Math.floor(Math.random()*arr.length)]\<close>, given the value
  drawn.  On a non-empty array the index is in range (lemma \<open>choice_index\<close> below); on
  the empty array JavaScript yields \<^verbatim>\<open>undefined\<close>, which the one caller that can
  pass an empty array handles, and the model handles there.
\<close>

definition choice :: "'a list \<Rightarrow> unit_real \<Rightarrow> 'a" where
  "choice arr u = arr ! nat \<lfloor>draw u * real (length arr)\<rfloor>"

subsection \<open>Tuning knobs\<close>

definition LOOP_PENALTY :: real where
  "LOOP_PENALTY = 0.10"

definition LOOP_PENALTY_STEPS :: nat where
  "LOOP_PENALTY_STEPS = 6"

definition INFO_GAIN_WEIGHT :: real where
  "INFO_GAIN_WEIGHT = 0.02"

definition NO_PROGRESS_TICKS :: int where
  "NO_PROGRESS_TICKS = 18"

definition STUCK_MIN_HISTORY :: nat where
  "STUCK_MIN_HISTORY = 6"

subsection \<open>JavaScript \<open>Set\<close> as a list in insertion order\<close>

text \<open>
  A \<^verbatim>\<open>Set\<close> iterates in insertion order, and \<^verbatim>\<open>forEach\<close> over the obstacles
  decides which obstacle gets which random draw, so a set is the list of its members in
  insertion order.  \<open>add\<close> appends a new member, \<open>delete\<close> removes it, \<open>size\<close> is
  the length.
\<close>

definition set_has :: "key list \<Rightarrow> key \<Rightarrow> bool" where
  "set_has s k = (k \<in> set s)"

definition set_add :: "key list \<Rightarrow> key \<Rightarrow> key list" where
  "set_add s k = (if k \<in> set s then s else s @ [k])"

definition set_delete :: "key list \<Rightarrow> key \<Rightarrow> key list" where
  "set_delete s k = removeAll k s"

definition new_Set :: "key list \<Rightarrow> key list" where
  "new_Set xs = fold (\<lambda>k s. set_add s k) xs []"

section \<open>Configuration and environment\<close>

record config =
  partialObs :: bool
  obsRadius :: int
  slipProb :: real
  dynamicObstacles :: bool
  episodic :: bool
  adversaryType :: string
  sensorNoise :: real

text \<open>The environment object of \<open>makeEnv\<close>, by value; \<open>done\<close> is \<open>done_flag\<close>.\<close>

record env =
  tick :: int
  width :: int
  height :: int
  obstacles :: "key list"
  agent :: pos
  goal :: pos
  adversary :: "pos option"
  reward :: real
  done_flag :: bool
  seen :: "key list"
  recent :: "key list"
  bestDist :: int
  lastImprovedTick :: int

definition cloneEnv :: "env \<Rightarrow> env" where
  "cloneEnv e =
     \<lparr> tick = tick e, width = width e, height = height e,
       obstacles = new_Set (obstacles e),
       agent = agent e, goal = goal e, adversary = adversary e,
       reward = reward e, done_flag = done_flag e,
       seen = new_Set (seen e),
       recent = recent e,
       bestDist = bestDist e, lastImprovedTick = lastImprovedTick e \<rparr>"

definition isBlocked :: "env \<Rightarrow> int \<Rightarrow> int \<Rightarrow> bool" where
  "isBlocked e x y =
     (if x < 0 \<or> y < 0 \<or> x \<ge> width e \<or> y \<ge> height e then True
      else set_has (obstacles e) (x, y))"

section \<open>stepEnvironment, phase by phase\<close>

text \<open>
  Stochastic slip: one draw decides whether the action is replaced; if so a second draw
  picks among the other three directions.
\<close>

definition slip_action :: "rng \<Rightarrow> config \<Rightarrow> dir \<Rightarrow> nat \<Rightarrow> dir \<times> nat" where
  "slip_action rnd cfg action k =
     (if draw (rnd k) < slipProb cfg
      then (choice (filter (\<lambda>d. d \<noteq> action) DIRS) (rnd (k + 1)), k + 2)
      else (action, k + 1))"

text \<open>The agent's cell after the one-cell move by \<open>a\<close>.\<close>

definition move_agent :: "env \<Rightarrow> dir \<Rightarrow> pos" where
  "move_agent e a =
     (let nx = fst (agent e) + dx a; ny = snd (agent e) + dy a
      in if \<not> isBlocked e nx ny
         then (clamp nx 0 (width e - 1), clamp ny 0 (height e - 1))
         else agent e)"

text \<open>
  Reveal of seen cells.  The offsets are enumerated as the two nested \<^verbatim>\<open>for\<close> loops
  do, \<open>dy\<close> outermost; a cell inside the grid costs one draw (the sensor-noise test),
  a cell outside costs none.
\<close>

definition offsets :: "int \<Rightarrow> (int \<times> int) list" where
  "offsets r = concat (map (\<lambda>oy. map (\<lambda>ox. (ox, oy)) [- r .. r]) [- r .. r])"

definition reveal_cell ::
  "rng \<Rightarrow> config \<Rightarrow> env \<Rightarrow> int \<times> int \<Rightarrow> key list \<times> nat \<Rightarrow> key list \<times> nat" where
  "reveal_cell rnd cfg e off sk =
     (let x = fst (agent e) + fst off; y = snd (agent e) + snd off
      in if x \<ge> 0 \<and> y \<ge> 0 \<and> x < width e \<and> y < height e
         then (if draw (rnd (snd sk)) < sensorNoise cfg then (fst sk, snd sk + 1)
               else (set_add (fst sk) (x, y), snd sk + 1))
         else sk)"

definition all_cells :: "env \<Rightarrow> key list" where
  "all_cells e = concat (map (\<lambda>y. map (\<lambda>x. (x, y)) [0 .. width e - 1]) [0 .. height e - 1])"

definition reveal_seen :: "rng \<Rightarrow> config \<Rightarrow> env \<Rightarrow> nat \<Rightarrow> key list \<times> nat" where
  "reveal_seen rnd cfg e k =
     (if partialObs cfg
      then fold (reveal_cell rnd cfg e) (offsets (obsRadius cfg)) (seen e, k)
      else if int (length (seen e)) < width e * height e
           then (fold (\<lambda>c s. set_add s c) (all_cells e) (seen e), k)
           else (seen e, k))"

text \<open>
  Dynamic obstacles.  Each obstacle, in the iteration order of the set, draws a direction
  and is put into the fresh set \<open>moved\<close> at its clamped target or at its own cell;
  \<open>isBlocked\<close> reads \<open>env.obstacles\<close>, which is replaced only after the loop.
\<close>

definition move_obstacle :: "rng \<Rightarrow> env \<Rightarrow> key \<Rightarrow> key list \<times> nat \<Rightarrow> key list \<times> nat" where
  "move_obstacle rnd e ob mk =
     (let ox = fst ob; oy = snd ob;
          d = choice DIRS (rnd (snd mk));
          tx = clamp (ox + dx d) 0 (width e - 1);
          ty = clamp (oy + dy d) 0 (height e - 1)
      in if \<not> isBlocked e tx ty
            \<and> \<not> (fst (agent e) = tx \<and> snd (agent e) = ty)
            \<and> \<not> (fst (goal e) = tx \<and> snd (goal e) = ty)
         then (set_add (fst mk) (tx, ty), snd mk + 1)
         else (set_add (fst mk) (ox, oy), snd mk + 1))"

definition delete_adversary :: "env \<Rightarrow> key list \<Rightarrow> key list" where
  "delete_adversary e s =
     (case adversary e of None \<Rightarrow> s | Some adv \<Rightarrow> set_delete s (keyOf adv))"

definition drift_obstacles :: "rng \<Rightarrow> env \<Rightarrow> nat \<Rightarrow> key list \<times> nat" where
  "drift_obstacles rnd e k =
     (let mk = fold (move_obstacle rnd e) (obstacles e) ([], k)
      in (delete_adversary e
            (set_delete (set_delete (fst mk) (keyOf (agent e))) (keyOf (goal e))),
          snd mk))"

definition drifts :: "config \<Rightarrow> env \<Rightarrow> bool" where
  "drifts cfg e = (dynamicObstacles cfg \<and> tick e mod 3 = 0)"

text \<open>
  The adversary's next cell.  Both variants build the clamped neighbour cells that are not
  blocked, in the order of \<open>DIRS\<close>.  The chaser reduces them from the left, starting
  from the first candidate or, with none, from the adversary's own cell; it draws nothing.
  The random walker draws once, also when there is no candidate, in which case
  \<^verbatim>\<open>choice(dirs) || {x:adv.x, y:adv.y}\<close> is the adversary's own cell.
\<close>

definition adv_candidates :: "env \<Rightarrow> pos \<Rightarrow> pos list" where
  "adv_candidates e adv =
     filter (\<lambda>p. \<not> isBlocked e (fst p) (snd p))
       (map (\<lambda>d. (clamp (fst adv + dx d) 0 (width e - 1),
                   clamp (snd adv + dy d) 0 (height e - 1))) DIRS)"

definition adv_move :: "rng \<Rightarrow> config \<Rightarrow> env \<Rightarrow> pos \<Rightarrow> nat \<Rightarrow> pos \<times> nat" where
  "adv_move rnd cfg e adv k =
     (let cands = adv_candidates e adv
      in if adversaryType cfg = ''chaser''
         then (fold (\<lambda>c b. if manhattan c (agent e) < manhattan b (agent e) then c else b)
                 cands (case cands of [] \<Rightarrow> adv | c # _ \<Rightarrow> c), k)
         else (if cands = [] then adv else choice cands (rnd k), k + 1))"

text \<open>
  Reward, tick, progress tracking, recent positions and the done flag, on the environment
  after the moves; \<open>advPenalty\<close> is \<open>- 5\<close> when the adversary landed on the agent.
\<close>

definition account :: "config \<Rightarrow> real \<Rightarrow> env \<Rightarrow> env" where
  "account cfg advPenalty e =
     (let at_goal = (fst (agent e) = fst (goal e) \<and> snd (agent e) = snd (goal e));
          r = - 0.05 + (if at_goal then 10 else 0) + advPenalty;
          t = tick e + 1;
          dist = manhattan (agent e) (goal e);
          improved = (dist < bestDist e);
          pushed = recent e @ [keyOf (agent e)]
      in e \<lparr> reward := reward e + r,
             tick := t,
             bestDist := (if improved then dist else bestDist e),
             lastImprovedTick := (if improved then t else lastImprovedTick e),
             recent := (if length pushed > 16 then tl pushed else pushed),
             done_flag := (if episodic cfg \<and> at_goal then True else done_flag e) \<rparr>)"

definition adv_penalty :: "env \<Rightarrow> real" where
  "adv_penalty e =
     (case adversary e of None \<Rightarrow> 0
      | Some adv \<Rightarrow> if fst adv = fst (agent e) \<and> snd adv = snd (agent e) then - 5 else 0)"

text \<open>
  The phases in the order of the source, each on the environment and the index of the next
  draw: the slip and the move; the reveal; the dynamic obstacles; the adversary; the
  accounting.
\<close>

definition move_phase :: "rng \<Rightarrow> config \<Rightarrow> dir \<Rightarrow> env \<times> nat \<Rightarrow> env \<times> nat" where
  "move_phase rnd cfg action ek =
     (let ak = slip_action rnd cfg action (snd ek)
      in ((fst ek) \<lparr> agent := move_agent (fst ek) (fst ak) \<rparr>, snd ak))"

definition reveal_phase :: "rng \<Rightarrow> config \<Rightarrow> env \<times> nat \<Rightarrow> env \<times> nat" where
  "reveal_phase rnd cfg ek =
     (let sk = reveal_seen rnd cfg (fst ek) (snd ek)
      in ((fst ek) \<lparr> seen := fst sk \<rparr>, snd sk))"

definition obstacle_phase :: "rng \<Rightarrow> config \<Rightarrow> env \<times> nat \<Rightarrow> env \<times> nat" where
  "obstacle_phase rnd cfg ek =
     (if drifts cfg (fst ek)
      then (let ok = drift_obstacles rnd (fst ek) (snd ek)
            in ((fst ek) \<lparr> obstacles := fst ok \<rparr>, snd ok))
      else ek)"

definition adversary_phase :: "rng \<Rightarrow> config \<Rightarrow> env \<times> nat \<Rightarrow> env \<times> nat" where
  "adversary_phase rnd cfg ek =
     (case adversary (fst ek) of None \<Rightarrow> ek
      | Some adv \<Rightarrow>
          (let pk = adv_move rnd cfg (fst ek) adv (snd ek)
           in ((fst ek) \<lparr> adversary := Some (fst pk) \<rparr>, snd pk)))"

definition account_phase :: "config \<Rightarrow> env \<times> nat \<Rightarrow> env \<times> nat" where
  "account_phase cfg ek = (account cfg (adv_penalty (fst ek)) (fst ek), snd ek)"

definition stepEnvironment :: "rng \<Rightarrow> config \<Rightarrow> dir \<Rightarrow> env \<times> nat \<Rightarrow> env \<times> nat" where
  "stepEnvironment rnd cfg action ek =
     (if done_flag (fst ek) then ek
      else account_phase cfg
             (adversary_phase rnd cfg
               (obstacle_phase rnd cfg
                 (reveal_phase rnd cfg
                   (move_phase rnd cfg action ek)))))"

section \<open>Stuck detection and information gain\<close>

definition isABAB :: "key list \<Rightarrow> bool" where
  "isABAB rc =
     (if length rc < 4 then False
      else (let n = length rc
            in rc ! (n - 1) = rc ! (n - 3) \<and> rc ! (n - 2) = rc ! (n - 4)))"

definition isStuck :: "env \<Rightarrow> bool" where
  "isStuck e =
     (if length (recent e) < STUCK_MIN_HISTORY then False
      else (let noProgress = (tick e - lastImprovedTick e \<ge> NO_PROGRESS_TICKS);
                abab = isABAB (recent e);
                tail = drop (length (recent e) - 6) (recent e);
                uniq = new_Set tail;
                tinyVar = (length uniq \<le> 2)
            in noProgress \<or> abab \<or> tinyVar))"

text \<open>The number of unseen cells of the grid in the square of radius \<open>obsRadius\<close> around \<open>p\<close>.\<close>

definition unseenAroundFrom :: "pos \<Rightarrow> env \<Rightarrow> config \<Rightarrow> int" where
  "unseenAroundFrom p e cfg =
     fold (\<lambda>off c.
             (let x = fst p + fst off; y = snd p + snd off
              in if x \<ge> 0 \<and> y \<ge> 0 \<and> x < width e \<and> y < height e
                 then (if \<not> set_has (seen e) (x, y) then c + 1 else c)
                 else c))
       (offsets (obsRadius cfg)) 0"

section \<open>Monte-Carlo rollouts\<close>

text \<open>
  What one iteration of the rollout loop adds to \<^verbatim>\<open>total\<close> (here \<open>tot\<close>) after the
  simulated step, in the order of the source: distance shaping, information gain, the
  early loop penalty and the goal bonus.
\<close>

definition score_tick :: "nat \<Rightarrow> key list \<Rightarrow> nat \<Rightarrow> env \<Rightarrow> real \<Rightarrow> real" where
  "score_tick startSeen recentSet t sim tot =
     (let tot1 = tot + - real_of_int (manhattan (agent sim) (goal sim)) * 0.02;
          gain = int (length (seen sim)) - int startSeen;
          tot2 = tot1 + real_of_int gain * INFO_GAIN_WEIGHT;
          tot3 = (if t < LOOP_PENALTY_STEPS \<and> set_has recentSet (keyOf (agent sim))
                    then tot2 - LOOP_PENALTY else tot2)
      in if fst (agent sim) = fst (goal sim) \<and> snd (agent sim) = snd (goal sim)
         then tot3 + 5 else tot3)"

text \<open>The action of iteration \<open>t\<close>: the given one first, a random one afterwards.\<close>

definition rollout_action :: "rng \<Rightarrow> dir \<Rightarrow> nat \<Rightarrow> nat \<Rightarrow> dir \<times> nat" where
  "rollout_action rnd action t k =
     (if t = 0 then (action, k) else (choice DIRS (rnd k), k + 1))"

function rollout ::
  "rng \<Rightarrow> config \<Rightarrow> dir \<Rightarrow> nat \<Rightarrow> nat \<Rightarrow> key list \<Rightarrow> nat \<Rightarrow> env \<times> nat \<times> real \<Rightarrow> real \<times> nat" where
  "rollout rnd cfg action horizon startSeen recentSet t (sim, k, tot) =
     (if t < horizon \<and> \<not> done_flag sim
      then (let ak = rollout_action rnd action t k;
                sk = stepEnvironment rnd cfg (fst ak) (sim, snd ak)
            in rollout rnd cfg action horizon startSeen recentSet (t + 1)
                 (fst sk, snd sk, score_tick startSeen recentSet t (fst sk) tot))
      else (tot, k))"
  by pat_completeness auto
termination
  by (relation "measure (\<lambda>(rnd, cfg, action, horizon, startSeen, recentSet, t, s). horizon - t)")
    auto

definition evaluateAction :: "rng \<Rightarrow> config \<Rightarrow> dir \<Rightarrow> nat \<Rightarrow> env \<times> nat \<Rightarrow> real \<times> nat" where
  "evaluateAction rnd cfg action horizon ek =
     (let sim = cloneEnv (fst ek);
          startSeen = length (seen sim);
          recentSet = new_Set (recent sim)
      in rollout rnd cfg action horizon startSeen recentSet 0 (sim, snd ek, 0))"

text \<open>
  The simulated environments after each iteration of the same loop, in order, and the
  iterations that add the goal bonus: ghost functions for stating what the loop does.
\<close>

function rollout_sims ::
  "rng \<Rightarrow> config \<Rightarrow> dir \<Rightarrow> nat \<Rightarrow> nat \<Rightarrow> env \<times> nat \<Rightarrow> env list" where
  "rollout_sims rnd cfg action horizon t (sim, k) =
     (if t < horizon \<and> \<not> done_flag sim
      then (let ak = rollout_action rnd action t k;
                sk = stepEnvironment rnd cfg (fst ak) (sim, snd ak)
            in fst sk # rollout_sims rnd cfg action horizon (t + 1) (fst sk, snd sk))
      else [])"
  by pat_completeness auto
termination
  by (relation "measure (\<lambda>(rnd, cfg, action, horizon, t, s). horizon - t)") auto

definition on_goal :: "env \<Rightarrow> bool" where
  "on_goal sim = (fst (agent sim) = fst (goal sim) \<and> snd (agent sim) = snd (goal sim))"

definition bonus_ticks :: "rng \<Rightarrow> config \<Rightarrow> dir \<Rightarrow> nat \<Rightarrow> env \<times> nat \<Rightarrow> nat list" where
  "bonus_ticks rnd cfg action horizon ek =
     (let sims = rollout_sims rnd cfg action horizon 0 (cloneEnv (fst ek), snd ek)
      in filter (\<lambda>t. on_goal (sims ! t)) [0 ..< length sims])"

text \<open>
  The score of the loop without the goal bonus: the three shaping terms of iteration
  \<open>t\<close>, and their sum over the simulated environments of a rollout.
\<close>

definition shaping_tick :: "nat \<Rightarrow> key list \<Rightarrow> nat \<Rightarrow> env \<Rightarrow> real" where
  "shaping_tick startSeen recentSet t sim =
     - real_of_int (manhattan (agent sim) (goal sim)) * 0.02
     + real_of_int (int (length (seen sim)) - int startSeen) * INFO_GAIN_WEIGHT
     - (if t < LOOP_PENALTY_STEPS \<and> set_has recentSet (keyOf (agent sim))
        then LOOP_PENALTY else 0)"

fun shaping_sum :: "nat \<Rightarrow> key list \<Rightarrow> nat \<Rightarrow> env list \<Rightarrow> real" where
  "shaping_sum startSeen recentSet t [] = 0"
| "shaping_sum startSeen recentSet t (sim # sims) =
     shaping_tick startSeen recentSet t sim + shaping_sum startSeen recentSet (t + 1) sims"

definition rollout_shaping :: "rng \<Rightarrow> config \<Rightarrow> dir \<Rightarrow> nat \<Rightarrow> env \<times> nat \<Rightarrow> real" where
  "rollout_shaping rnd cfg action horizon ek =
     (let sim = cloneEnv (fst ek)
      in shaping_sum (length (seen sim)) (new_Set (recent sim)) 0
           (rollout_sims rnd cfg action horizon 0 (sim, snd ek)))"

definition rollout_length :: "rng \<Rightarrow> config \<Rightarrow> dir \<Rightarrow> nat \<Rightarrow> env \<times> nat \<Rightarrow> nat" where
  "rollout_length rnd cfg action horizon ek =
     length (rollout_sims rnd cfg action horizon 0 (cloneEnv (fst ek), snd ek))"

section \<open>pickAction\<close>

text \<open>The object \<^verbatim>\<open>{ action, estimates, iters, mode }\<close> that \<open>pickAction\<close> returns.\<close>

record decision =
  d_action :: dir
  d_estimates :: "(dir \<times> real) list"
  d_iters :: nat
  d_mode :: string

text \<open>
  The information-seeking fallback: the loop over \<open>DIRS\<close> keeps the best direction and
  its count, \<open>None\<close> standing for \<^verbatim>\<open>-Infinity\<close>.
\<close>

definition explore_step :: "env \<Rightarrow> config \<Rightarrow> dir \<Rightarrow> dir \<times> int option \<Rightarrow> dir \<times> int option" where
  "explore_step e cfg d bb =
     (let nx = clamp (fst (agent e) + dx d) 0 (width e - 1);
          ny = clamp (snd (agent e) + dy d) 0 (height e - 1)
      in if isBlocked e nx ny then bb
         else (let info = unseenAroundFrom (nx, ny) e cfg
               in if (case snd bb of None \<Rightarrow> True | Some bestInfo \<Rightarrow> info > bestInfo)
                  then (d, Some info) else bb))"

definition explore_best :: "env \<Rightarrow> config \<Rightarrow> dir \<times> int option" where
  "explore_best e cfg = fold (explore_step e cfg) DIRS (DIRS ! 0, None)"

text \<open>
  The clock is an oracle as well: the \<open>c\<close>-th call of \<^verbatim>\<open>now()\<close> returns \<open>clk c\<close>.
  The scores map every direction name to its sum and count.
\<close>

type_synonym clock = "nat \<Rightarrow> real"
type_synonym scores = "dir \<Rightarrow> real \<times> nat"

definition initial_scores :: scores where
  "initial_scores = (\<lambda>d. (0, 0))"

text \<open>
  One pass of the inner \<^verbatim>\<open>for\<close> loop over the remaining directions, with its
  \<^verbatim>\<open>break\<close>.  The state is the scores, \<open>iters\<close>, the index of the next random draw
  and the index of the next clock reading.
\<close>

fun mc_pass ::
  "rng \<Rightarrow> clock \<Rightarrow> config \<Rightarrow> env \<Rightarrow> real \<Rightarrow> real \<Rightarrow> nat \<Rightarrow> dir list \<Rightarrow>
   scores \<times> nat \<times> nat \<times> nat \<Rightarrow> scores \<times> nat \<times> nat \<times> nat" where
  "mc_pass rnd clk cfg e start budgetMs horizon [] st = st"
| "mc_pass rnd clk cfg e start budgetMs horizon (d # ds) (sc, its, k, c) =
     (let vk = evaluateAction rnd cfg d horizon (e, k);
          sc' = sc (d := (fst (sc d) + fst vk, snd (sc d) + 1))
      in if clk c - start \<ge> budgetMs then (sc', its + 1, snd vk, c + 1)
         else mc_pass rnd clk cfg e start budgetMs horizon ds (sc', its + 1, snd vk, c + 1))"

text \<open>
  The outer \<^verbatim>\<open>while (now() - start < budgetMs)\<close> loop.  It ends only when the clock
  passes the budget, so it runs on fuel, one unit per pass; \<open>None\<close> is a loop that has
  not ended within the fuel.
\<close>

fun mc_while ::
  "nat \<Rightarrow> rng \<Rightarrow> clock \<Rightarrow> config \<Rightarrow> env \<Rightarrow> real \<Rightarrow> real \<Rightarrow> nat \<Rightarrow>
   scores \<times> nat \<times> nat \<times> nat \<Rightarrow> (scores \<times> nat \<times> nat \<times> nat) option" where
  "mc_while 0 rnd clk cfg e start budgetMs horizon (sc, its, k, c) =
     (if clk c - start < budgetMs then None else Some (sc, its, k, c + 1))"
| "mc_while (Suc fuel) rnd clk cfg e start budgetMs horizon (sc, its, k, c) =
     (if clk c - start < budgetMs
      then mc_while fuel rnd clk cfg e start budgetMs horizon
             (mc_pass rnd clk cfg e start budgetMs horizon DIRS (sc, its, k, c + 1))
      else Some (sc, its, k, c + 1))"

text \<open>The mean of a direction, \<open>None\<close> standing for \<^verbatim>\<open>-Infinity\<close>.\<close>

definition mean :: "scores \<Rightarrow> dir \<Rightarrow> real option" where
  "mean sc d = (if snd (sc d) \<noteq> 0 then Some (fst (sc d) / real (snd (sc d))) else None)"

fun mean_gt :: "real option \<Rightarrow> real option \<Rightarrow> bool" where
  "mean_gt None b = False"
| "mean_gt (Some a) None = True"
| "mean_gt (Some a) (Some b) = (a > b)"

definition best_mean :: "scores \<Rightarrow> dir \<times> real option" where
  "best_mean sc =
     fold (\<lambda>d bb. if mean_gt (mean sc d) (snd bb) then (d, mean sc d) else bb)
       DIRS (DIRS ! 0, None)"

text \<open>
  The comparator \<^verbatim>\<open>(a,b) => bM - aM\<close> of the epsilon branch, by the sign of its
  result: the difference of two \<^verbatim>\<open>-Infinity\<close> is \<^verbatim>\<open>NaN\<close>, which
  \<^verbatim>\<open>Array.prototype.sort\<close> takes as \<open>0\<close>.  The sort is stable, so on this
  comparator its result is the one stable arrangement, computed here by insertion.
\<close>

fun compare_means :: "real option \<Rightarrow> real option \<Rightarrow> int" where
  "compare_means None None = 0"
| "compare_means None (Some bM) = 1"
| "compare_means (Some aM) None = - 1"
| "compare_means (Some aM) (Some bM) =
     (if bM - aM < 0 then - 1 else if bM - aM > 0 then 1 else 0)"

fun js_insort :: "('a \<Rightarrow> 'a \<Rightarrow> int) \<Rightarrow> 'a \<Rightarrow> 'a list \<Rightarrow> 'a list" where
  "js_insort cmp x [] = [x]"
| "js_insort cmp x (y # ys) =
     (if cmp x y \<le> 0 then x # y # ys else y # js_insort cmp x ys)"

definition js_sort :: "('a \<Rightarrow> 'a \<Rightarrow> int) \<Rightarrow> 'a list \<Rightarrow> 'a list" where
  "js_sort cmp xs = foldr (js_insort cmp) xs []"

definition epsilon_pick :: "rng \<Rightarrow> scores \<Rightarrow> dir \<Rightarrow> nat \<Rightarrow> dir \<times> nat" where
  "epsilon_pick rnd sc best k =
     (if draw (rnd k) < 0.05
      then (let sorted = js_sort (\<lambda>a b. compare_means (mean sc a) (mean sc b)) DIRS
            in (choice (take (max 2 (length sorted div 2)) sorted) (rnd (k + 1)), k + 2))
      else (best, k + 1))"

text \<open>
  \<open>pickAction\<close> returns the decision with the indices of the next random draw and the
  next clock reading, or \<open>None\<close> when the rollout loop has not ended within the fuel.
\<close>

definition pickAction ::
  "nat \<Rightarrow> rng \<Rightarrow> clock \<Rightarrow> env \<Rightarrow> config \<Rightarrow> real \<Rightarrow> nat \<times> nat \<Rightarrow> (decision \<times> nat \<times> nat) option" where
  "pickAction fuel rnd clk e cfg budgetMs kc =
     (let k = fst kc; c = snd kc;
          start = clk c;
          horizon = (if partialObs cfg then 14 else 10);
          eb = explore_best e cfg
      in if isStuck e \<and> partialObs cfg \<and> snd eb \<noteq> None
         then Some (\<lparr> d_action = fst eb, d_estimates = [], d_iters = 0, d_mode = ''explore'' \<rparr>, k, c + 1)
         else (case mc_while fuel rnd clk cfg e start budgetMs horizon
                      (initial_scores, 0, k, c + 1) of
                 None \<Rightarrow> None
               | Some (sc, its, k', c') \<Rightarrow>
                   (let bk = epsilon_pick rnd sc (fst (best_mean sc)) k'
                    in Some (\<lparr> d_action = fst bk,
                               d_estimates = map (\<lambda>d. (d, case mean sc d of Some m \<Rightarrow> m | None \<Rightarrow> 0)) DIRS,
                               d_iters = its, d_mode = ''mc'' \<rparr>, snd bk, c'))))"

section \<open>The same functions on a store of objects\<close>

text \<open>
  \<open>stepEnvironment\<close> mutates the environment it is given: the fields of the
  environment object, the point objects \<open>agent\<close> and \<open>adversary\<close>, the \<open>seen\<close> set
  and the \<open>recent\<close> array.  Whether a caller's environment survives a rollout depends on
  which objects \<open>cloneEnv\<close> copies, so here objects live in a store, one component per
  kind of object, addressed by natural numbers; \<open>lim\<close> is the next free address, and a
  \<^verbatim>\<open>new\<close> or an object literal takes it.
\<close>

type_synonym addr = nat

record env_obj =
  o_tick :: int
  o_width :: int
  o_height :: int
  o_obstacles :: addr
  o_agent :: addr
  o_goal :: addr
  o_adversary :: "addr option"
  o_reward :: real
  o_done :: bool
  o_seen :: addr
  o_recent :: addr
  o_bestDist :: int
  o_lastImprovedTick :: int

record store =
  env_objs :: "addr \<Rightarrow> env_obj"
  points :: "addr \<Rightarrow> pos"
  sets :: "addr \<Rightarrow> key list"
  arrays :: "addr \<Rightarrow> key list"
  lim :: addr

text \<open>The environment at address \<open>a\<close>, read through its references.\<close>

definition env_of :: "store \<Rightarrow> addr \<Rightarrow> env" where
  "env_of h a =
     (let ob = env_objs h a
      in \<lparr> tick = o_tick ob, width = o_width ob, height = o_height ob,
           obstacles = sets h (o_obstacles ob),
           agent = points h (o_agent ob), goal = points h (o_goal ob),
           adversary = map_option (points h) (o_adversary ob),
           reward = o_reward ob, done_flag = o_done ob,
           seen = sets h (o_seen ob),
           recent = arrays h (o_recent ob),
           bestDist = o_bestDist ob, lastImprovedTick = o_lastImprovedTick ob \<rparr>)"

definition alloc_set :: "key list \<Rightarrow> store \<Rightarrow> store \<times> addr" where
  "alloc_set s h = (h \<lparr> sets := (sets h) (lim h := s), lim := lim h + 1 \<rparr>, lim h)"

definition alloc_point :: "pos \<Rightarrow> store \<Rightarrow> store \<times> addr" where
  "alloc_point p h = (h \<lparr> points := (points h) (lim h := p), lim := lim h + 1 \<rparr>, lim h)"

definition alloc_array :: "key list \<Rightarrow> store \<Rightarrow> store \<times> addr" where
  "alloc_array xs h = (h \<lparr> arrays := (arrays h) (lim h := xs), lim := lim h + 1 \<rparr>, lim h)"

definition alloc_env :: "env_obj \<Rightarrow> store \<Rightarrow> store \<times> addr" where
  "alloc_env ob h = (h \<lparr> env_objs := (env_objs h) (lim h := ob), lim := lim h + 1 \<rparr>, lim h)"

text \<open>
  \<open>cloneEnv\<close>: the object literal evaluates its properties in order, each
  \<^verbatim>\<open>new Set(...)\<close>, spread \<^verbatim>\<open>{ ...p }\<close> and \<^verbatim>\<open>[...xs]\<close> making a new object, and
  then the environment object itself is made.
\<close>

definition cloneEnv_h :: "store \<Rightarrow> addr \<Rightarrow> store \<times> addr" where
  "cloneEnv_h h e =
     (let ob = env_objs h e;
          ha1 = alloc_set (new_Set (sets h (o_obstacles ob))) h;
          ha2 = alloc_point (points (fst ha1) (o_agent ob)) (fst ha1);
          ha3 = alloc_point (points (fst ha2) (o_goal ob)) (fst ha2);
          ha4 = (case o_adversary ob of None \<Rightarrow> (fst ha3, None)
                 | Some ar \<Rightarrow>
                     (let ha = alloc_point (points (fst ha3) ar) (fst ha3)
                      in (fst ha, Some (snd ha))));
          ha5 = alloc_set (new_Set (sets (fst ha4) (o_seen ob))) (fst ha4);
          ha6 = alloc_array (arrays (fst ha5) (o_recent ob)) (fst ha5)
      in alloc_env
           \<lparr> o_tick = o_tick ob, o_width = o_width ob, o_height = o_height ob,
             o_obstacles = snd ha1, o_agent = snd ha2, o_goal = snd ha3,
             o_adversary = snd ha4,
             o_reward = o_reward ob, o_done = o_done ob,
             o_seen = snd ha5, o_recent = snd ha6,
             o_bestDist = o_bestDist ob, o_lastImprovedTick = o_lastImprovedTick ob \<rparr>
           (fst ha6))"

text \<open>
  \<open>stepEnvironment\<close> on the environment object at address \<open>e\<close>.  Each phase reads the
  environment through the store as it is at that moment, computes what the phase of the
  value-level function computes, and writes the object that the source writes:
  \<^verbatim>\<open>agent.x\<close>, \<^verbatim>\<open>agent.y\<close> (the point \<open>env.agent\<close>); \<^verbatim>\<open>env.seen.add\<close> (the set
  \<open>env.seen\<close>); \<^verbatim>\<open>env.obstacles = moved\<close> (a new set, and the field of the environment
  object); \<^verbatim>\<open>adv.x\<close>, \<^verbatim>\<open>adv.y\<close> (the point \<open>env.adversary\<close>); the scalar fields of
  the environment object; \<^verbatim>\<open>env.recent.push\<close> and \<^verbatim>\<open>shift\<close> (the array
  \<open>env.recent\<close>).
\<close>

definition write_agent :: "addr \<Rightarrow> pos \<Rightarrow> store \<Rightarrow> store" where
  "write_agent e p h = h \<lparr> points := (points h) (o_agent (env_objs h e) := p) \<rparr>"

definition write_seen :: "addr \<Rightarrow> key list \<Rightarrow> store \<Rightarrow> store" where
  "write_seen e s h = h \<lparr> sets := (sets h) (o_seen (env_objs h e) := s) \<rparr>"

definition assign_obstacles :: "addr \<Rightarrow> key list \<Rightarrow> store \<Rightarrow> store" where
  "assign_obstacles e s h =
     (let ha = alloc_set s h
      in (fst ha) \<lparr> env_objs :=
            (env_objs (fst ha)) (e := (env_objs (fst ha) e) \<lparr> o_obstacles := snd ha \<rparr>) \<rparr>)"

definition write_adversary :: "addr \<Rightarrow> pos \<Rightarrow> store \<Rightarrow> store" where
  "write_adversary ar p h = h \<lparr> points := (points h) (ar := p) \<rparr>"

definition write_account :: "addr \<Rightarrow> env \<Rightarrow> store \<Rightarrow> store" where
  "write_account e v h =
     h \<lparr> env_objs := (env_objs h)
           (e := (env_objs h e) \<lparr> o_reward := reward v, o_tick := tick v,
                                  o_bestDist := bestDist v,
                                  o_lastImprovedTick := lastImprovedTick v,
                                  o_done := done_flag v \<rparr>),
         arrays := (arrays h) (o_recent (env_objs h e) := recent v) \<rparr>"

definition move_phase_h :: "rng \<Rightarrow> config \<Rightarrow> dir \<Rightarrow> addr \<Rightarrow> store \<times> nat \<Rightarrow> store \<times> nat" where
  "move_phase_h rnd cfg action e hk =
     (let ak = slip_action rnd cfg action (snd hk)
      in (write_agent e (move_agent (env_of (fst hk) e) (fst ak)) (fst hk), snd ak))"

definition reveal_phase_h :: "rng \<Rightarrow> config \<Rightarrow> addr \<Rightarrow> store \<times> nat \<Rightarrow> store \<times> nat" where
  "reveal_phase_h rnd cfg e hk =
     (let sk = reveal_seen rnd cfg (env_of (fst hk) e) (snd hk)
      in (write_seen e (fst sk) (fst hk), snd sk))"

definition obstacle_phase_h :: "rng \<Rightarrow> config \<Rightarrow> addr \<Rightarrow> store \<times> nat \<Rightarrow> store \<times> nat" where
  "obstacle_phase_h rnd cfg e hk =
     (if drifts cfg (env_of (fst hk) e)
      then (let ok = drift_obstacles rnd (env_of (fst hk) e) (snd hk)
            in (assign_obstacles e (fst ok) (fst hk), snd ok))
      else hk)"

definition adversary_phase_h :: "rng \<Rightarrow> config \<Rightarrow> addr \<Rightarrow> store \<times> nat \<Rightarrow> store \<times> nat" where
  "adversary_phase_h rnd cfg e hk =
     (case o_adversary (env_objs (fst hk) e) of None \<Rightarrow> hk
      | Some ar \<Rightarrow>
          (let pk = adv_move rnd cfg (env_of (fst hk) e) (points (fst hk) ar) (snd hk)
           in (write_adversary ar (fst pk) (fst hk), snd pk)))"

definition account_phase_h :: "config \<Rightarrow> addr \<Rightarrow> store \<times> nat \<Rightarrow> store \<times> nat" where
  "account_phase_h cfg e hk =
     (let v = env_of (fst hk) e
      in (write_account e (account cfg (adv_penalty v) v) (fst hk), snd hk))"

definition stepEnvironment_h :: "rng \<Rightarrow> config \<Rightarrow> dir \<Rightarrow> addr \<Rightarrow> store \<times> nat \<Rightarrow> store \<times> nat" where
  "stepEnvironment_h rnd cfg action e hk =
     (if o_done (env_objs (fst hk) e) then hk
      else account_phase_h cfg e
             (adversary_phase_h rnd cfg e
               (obstacle_phase_h rnd cfg e
                 (reveal_phase_h rnd cfg e
                   (move_phase_h rnd cfg action e hk)))))"

function rollout_h ::
  "rng \<Rightarrow> config \<Rightarrow> dir \<Rightarrow> nat \<Rightarrow> nat \<Rightarrow> key list \<Rightarrow> nat \<Rightarrow> addr \<Rightarrow> store \<times> nat \<times> real \<Rightarrow>
   real \<times> store \<times> nat" where
  "rollout_h rnd cfg action horizon startSeen recentSet t sim (h, k, tot) =
     (if t < horizon \<and> \<not> o_done (env_objs h sim)
      then (let ak = rollout_action rnd action t k;
                hk = stepEnvironment_h rnd cfg (fst ak) sim (h, snd ak)
            in rollout_h rnd cfg action horizon startSeen recentSet (t + 1) sim
                 (fst hk, snd hk, score_tick startSeen recentSet t (env_of (fst hk) sim) tot))
      else (tot, h, k))"
  by pat_completeness auto
termination
  by (relation
      "measure (\<lambda>(rnd, cfg, action, horizon, startSeen, recentSet, t, s). horizon - t)")
    auto

definition evaluateAction_h ::
  "rng \<Rightarrow> config \<Rightarrow> dir \<Rightarrow> nat \<Rightarrow> addr \<Rightarrow> store \<times> nat \<Rightarrow> real \<times> store \<times> nat" where
  "evaluateAction_h rnd cfg action horizon e hk =
     (let hs = cloneEnv_h (fst hk) e;
          h = fst hs; sim = snd hs;
          startSeen = length (sets h (o_seen (env_objs h sim)));
          recentSet = new_Set (arrays h (o_recent (env_objs h sim)))
      in rollout_h rnd cfg action horizon startSeen recentSet 0 sim (h, snd hk, 0))"

text \<open>Any number of calls, each with its own first action and horizon, on one environment.\<close>

fun evaluate_calls ::
  "rng \<Rightarrow> config \<Rightarrow> addr \<Rightarrow> (dir \<times> nat) list \<Rightarrow> store \<times> nat \<Rightarrow> store \<times> nat" where
  "evaluate_calls rnd cfg e [] hk = hk"
| "evaluate_calls rnd cfg e (c # cs) hk =
     evaluate_calls rnd cfg e cs (snd (evaluateAction_h rnd cfg (fst c) (snd c) e hk))"

text \<open>
  An environment object is allocated when it and every object it refers to lie below
  \<open>lim\<close>.
\<close>

definition allocated :: "store \<Rightarrow> addr \<Rightarrow> bool" where
  "allocated h e =
     (let ob = env_objs h e
      in e < lim h \<and> o_obstacles ob < lim h \<and> o_agent ob < lim h \<and> o_goal ob < lim h
         \<and> (case o_adversary ob of None \<Rightarrow> True | Some ar \<Rightarrow> ar < lim h)
         \<and> o_seen ob < lim h \<and> o_recent ob < lim h)"

text \<open>
  Two stores agree below \<open>n\<close> when every object at an address below \<open>n\<close> is the same
  in both; an environment object lies above \<open>n\<close> when it and every object it refers to
  have addresses from \<open>n\<close> on, and so has every object still to be made.
\<close>

definition same_below :: "addr \<Rightarrow> store \<Rightarrow> store \<Rightarrow> bool" where
  "same_below n h h' =
     (\<forall>a<n. env_objs h' a = env_objs h a \<and> points h' a = points h a
            \<and> sets h' a = sets h a \<and> arrays h' a = arrays h a)"

definition owned_above :: "addr \<Rightarrow> store \<Rightarrow> addr \<Rightarrow> bool" where
  "owned_above n h e =
     (let ob = env_objs h e
      in n \<le> lim h \<and> n \<le> e \<and> n \<le> o_obstacles ob \<and> n \<le> o_agent ob \<and> n \<le> o_goal ob
         \<and> (case o_adversary ob of None \<Rightarrow> True | Some ar \<Rightarrow> n \<le> ar)
         \<and> n \<le> o_seen ob \<and> n \<le> o_recent ob)"

text \<open>
  An allocated environment object is separated when no two of its references of the same
  kind name the same object.  \<open>makeEnv\<close> and \<open>cloneEnv\<close> make separated
  environments; on them the functions on the store compute what the functions on values
  compute.
\<close>

definition separated :: "store \<Rightarrow> addr \<Rightarrow> bool" where
  "separated h e =
     (let ob = env_objs h e
      in allocated h e \<and> o_agent ob \<noteq> o_goal ob \<and> o_obstacles ob \<noteq> o_seen ob
         \<and> (case o_adversary ob of None \<Rightarrow> True
            | Some ar \<Rightarrow> ar \<noteq> o_agent ob \<and> ar \<noteq> o_goal ob))"

section \<open>Concrete environments and configurations\<close>

text \<open>Inputs at which the properties below are instantiated and evaluated.\<close>

definition short_history_env :: env where
  "short_history_env =
     \<lparr> tick = 2, width = 5, height = 5, obstacles = [], agent = (1, 1), goal = (4, 1),
       adversary = None, reward = - 0.1, done_flag = False,
       seen = [(1, 1), (2, 1)], recent = [(1, 1), (2, 1), (1, 1)],
       bestDist = 2, lastImprovedTick = 1 \<rparr>"

definition abab_env :: env where
  "abab_env =
     \<lparr> tick = 5, width = 5, height = 5, obstacles = [], agent = (2, 1), goal = (4, 1),
       adversary = None, reward = - 0.25, done_flag = False,
       seen = [(1, 1), (2, 1)],
       recent = [(1, 1), (2, 1), (1, 1), (2, 1), (1, 1), (2, 1)],
       bestDist = 2, lastImprovedTick = 1 \<rparr>"

text \<open>
  The scenario of the specification: a 5 by 5 grid without obstacles, the agent at
  \<open>(0,4)\<close>, the goal at \<open>(4,0)\<close>, no randomness, episodic; four moves right, then four
  moves up.
\<close>

definition scenario_cfg :: config where
  "scenario_cfg =
     \<lparr> partialObs = True, obsRadius = 3, slipProb = 0, dynamicObstacles = False,
       episodic = True, adversaryType = ''random'', sensorNoise = 0 \<rparr>"

definition scenario_env :: env where
  "scenario_env =
     \<lparr> tick = 0, width = 5, height = 5, obstacles = [], agent = (0, 4), goal = (4, 0),
       adversary = None, reward = 0, done_flag = False,
       seen = [(0, 4)], recent = [(0, 4)],
       bestDist = 8, lastImprovedTick = 0 \<rparr>"

definition scenario_actions :: "dir list" where
  "scenario_actions = [RIGHT, RIGHT, RIGHT, RIGHT, UP, UP, UP, UP]"

text \<open>Two constant sources of randomness.\<close>

definition rnd_zero :: rng where
  "rnd_zero = (\<lambda>k. Draw 0)"

definition rnd_high :: rng where
  "rnd_high = (\<lambda>k. Draw (9 / 10))"

text \<open>
  The scenario's environment in a store: its obstacle set, agent, goal, seen set and
  recent array at the addresses \<open>0\<close> to \<open>4\<close>, the environment object at \<open>5\<close>.
\<close>

definition scenario_obj :: env_obj where
  "scenario_obj =
     \<lparr> o_tick = 0, o_width = 5, o_height = 5, o_obstacles = 0, o_agent = 1, o_goal = 2,
       o_adversary = None, o_reward = 0, o_done = False, o_seen = 3, o_recent = 4,
       o_bestDist = 8, o_lastImprovedTick = 0 \<rparr>"

definition scenario_store :: store where
  "scenario_store =
     \<lparr> env_objs = (\<lambda>a. scenario_obj),
       points = (\<lambda>a. (0, 0)) (1 := (0, 4), 2 := (4, 0)),
       sets = (\<lambda>a. []) (3 := [(0, 4)]),
       arrays = (\<lambda>a. []) (4 := [(0, 4)]),
       lim = 6 \<rparr>"

text \<open>
  Dynamic obstacles on a 5 by 5 grid at tick \<open>0\<close>, the agent, the goal and the adversary
  where \<open>makeEnv\<close> puts them.  In \<open>merge_env\<close> the obstacles at \<open>(0,0)\<close> and
  \<open>(2,0)\<close> draw RIGHT and LEFT; in \<open>capture_env\<close> the obstacle at \<open>(2,3)\<close> draws
  RIGHT, towards the adversary at \<open>(3,3)\<close>.  The agent's move and the reveal take the
  draws \<open>0\<close> to \<open>9\<close>, so the obstacles draw from index \<open>10\<close> on.
\<close>

definition drift_cfg :: config where
  "drift_cfg =
     \<lparr> partialObs = True, obsRadius = 1, slipProb = 0, dynamicObstacles = True,
       episodic = True, adversaryType = ''random'', sensorNoise = 0 \<rparr>"

definition merge_env :: env where
  "merge_env =
     \<lparr> tick = 0, width = 5, height = 5, obstacles = [(0, 0), (2, 0)], agent = (1, 3),
       goal = (3, 1), adversary = None, reward = 0, done_flag = False,
       seen = [(1, 3)], recent = [(1, 3)], bestDist = 4, lastImprovedTick = 0 \<rparr>"

definition merge_rnd :: rng where
  "merge_rnd = (\<lambda>k. if k = 10 then Draw (1 / 4) else if k = 11 then Draw (3 / 4) else Draw 0)"

definition capture_env :: env where
  "capture_env =
     \<lparr> tick = 0, width = 5, height = 5, obstacles = [(2, 3)], agent = (1, 3),
       goal = (3, 1), adversary = Some (3, 3), reward = 0, done_flag = False,
       seen = [(1, 3)], recent = [(1, 3)], bestDist = 4, lastImprovedTick = 0 \<rparr>"

definition capture_rnd :: rng where
  "capture_rnd = (\<lambda>k. if k = 10 then Draw (1 / 4) else Draw 0)"

text \<open>
  The agent next to the goal on the top row: RIGHT reaches the goal, and a later UP runs
  into the border and leaves the agent on the goal.  \<open>repeat_cfg\<close> is not episodic,
  \<open>near_cfg\<close> is.
\<close>

definition repeat_cfg :: config where
  "repeat_cfg =
     \<lparr> partialObs = True, obsRadius = 1, slipProb = 0, dynamicObstacles = False,
       episodic = False, adversaryType = ''random'', sensorNoise = 0 \<rparr>"

definition near_cfg :: config where
  "near_cfg =
     \<lparr> partialObs = True, obsRadius = 1, slipProb = 0, dynamicObstacles = False,
       episodic = True, adversaryType = ''random'', sensorNoise = 0 \<rparr>"

definition near_env :: env where
  "near_env =
     \<lparr> tick = 0, width = 5, height = 5, obstacles = [], agent = (3, 0), goal = (4, 0),
       adversary = None, reward = 0, done_flag = False,
       seen = [(3, 0)], recent = [(3, 0)], bestDist = 1, lastImprovedTick = 0 \<rparr>"

definition near_env1 :: env where
  "near_env1 =
     \<lparr> tick = 1, width = 5, height = 5, obstacles = [], agent = (4, 0), goal = (4, 0),
       adversary = None, reward = 199 / 20, done_flag = False,
       seen = [(3, 0), (4, 0), (3, 1), (4, 1)], recent = [(3, 0), (4, 0)],
       bestDist = 0, lastImprovedTick = 1 \<rparr>"

definition near_env2 :: env where
  "near_env2 =
     \<lparr> tick = 2, width = 5, height = 5, obstacles = [], agent = (4, 0), goal = (4, 0),
       adversary = None, reward = 199 / 10, done_flag = False,
       seen = [(3, 0), (4, 0), (3, 1), (4, 1)], recent = [(3, 0), (4, 0), (4, 0)],
       bestDist = 0, lastImprovedTick = 1 \<rparr>"






text \<open>
  The agent on the top row of a grid whose three upper rows are all seen, after sixteen
  ticks on the same cell: it is stuck, and no move reveals anything.
\<close>

definition edge_env :: env where
  "edge_env =
     \<lparr> tick = 40, width = 5, height = 5, obstacles = [], agent = (2, 0), goal = (2, 4),
       adversary = None, reward = - 2, done_flag = False,
       seen = [(0, 0), (1, 0), (2, 0), (3, 0), (4, 0),
               (0, 1), (1, 1), (2, 1), (3, 1), (4, 1),
               (0, 2), (1, 2), (2, 2), (3, 2), (4, 2)],
       recent = [(2, 0), (2, 0), (2, 0), (2, 0), (2, 0), (2, 0), (2, 0), (2, 0),
                 (2, 0), (2, 0), (2, 0), (2, 0), (2, 0), (2, 0), (2, 0), (2, 0)],
       bestDist = 3, lastImprovedTick = 10 \<rparr>"

section \<open>Properties\<close>

lemma choice_index:
  assumes "arr \<noteq> []"
  shows "nat \<lfloor>draw u * real (length arr)\<rfloor> < length arr"
proof -
  have u: "0 \<le> draw u" "draw u < 1"
    using draw [of u] by auto
  have pos: "0 < real (length arr)"
    using assms by simp
  have "draw u * real (length arr) < real (length arr)"
    using u(2) pos by simp
  then have "\<lfloor>draw u * real (length arr)\<rfloor> < int (length arr)"
    by (simp add: floor_less_iff)
  moreover have "0 \<le> \<lfloor>draw u * real (length arr)\<rfloor>"
    using u(1) by simp
  ultimately show ?thesis by linarith
qed

lemma choice_in_set: "arr \<noteq> [] \<Longrightarrow> choice arr u \<in> set arr"
  unfolding choice_def by (rule nth_mem) (rule choice_index)

subsection \<open>What each phase leaves alone\<close>

lemma move_phase_fields [simp]:
  "tick (fst (move_phase rnd cfg a ek)) = tick (fst ek)"
  "width (fst (move_phase rnd cfg a ek)) = width (fst ek)"
  "height (fst (move_phase rnd cfg a ek)) = height (fst ek)"
  "obstacles (fst (move_phase rnd cfg a ek)) = obstacles (fst ek)"
  "goal (fst (move_phase rnd cfg a ek)) = goal (fst ek)"
  "adversary (fst (move_phase rnd cfg a ek)) = adversary (fst ek)"
  "reward (fst (move_phase rnd cfg a ek)) = reward (fst ek)"
  "done_flag (fst (move_phase rnd cfg a ek)) = done_flag (fst ek)"
  "seen (fst (move_phase rnd cfg a ek)) = seen (fst ek)"
  "recent (fst (move_phase rnd cfg a ek)) = recent (fst ek)"
  "bestDist (fst (move_phase rnd cfg a ek)) = bestDist (fst ek)"
  "lastImprovedTick (fst (move_phase rnd cfg a ek)) = lastImprovedTick (fst ek)"
  by (simp_all add: move_phase_def Let_def)

lemma reveal_phase_fields [simp]:
  "tick (fst (reveal_phase rnd cfg ek)) = tick (fst ek)"
  "width (fst (reveal_phase rnd cfg ek)) = width (fst ek)"
  "height (fst (reveal_phase rnd cfg ek)) = height (fst ek)"
  "obstacles (fst (reveal_phase rnd cfg ek)) = obstacles (fst ek)"
  "agent (fst (reveal_phase rnd cfg ek)) = agent (fst ek)"
  "goal (fst (reveal_phase rnd cfg ek)) = goal (fst ek)"
  "adversary (fst (reveal_phase rnd cfg ek)) = adversary (fst ek)"
  "reward (fst (reveal_phase rnd cfg ek)) = reward (fst ek)"
  "done_flag (fst (reveal_phase rnd cfg ek)) = done_flag (fst ek)"
  "recent (fst (reveal_phase rnd cfg ek)) = recent (fst ek)"
  "bestDist (fst (reveal_phase rnd cfg ek)) = bestDist (fst ek)"
  "lastImprovedTick (fst (reveal_phase rnd cfg ek)) = lastImprovedTick (fst ek)"
  by (simp_all add: reveal_phase_def Let_def)

lemma obstacle_phase_fields [simp]:
  "tick (fst (obstacle_phase rnd cfg ek)) = tick (fst ek)"
  "width (fst (obstacle_phase rnd cfg ek)) = width (fst ek)"
  "height (fst (obstacle_phase rnd cfg ek)) = height (fst ek)"
  "agent (fst (obstacle_phase rnd cfg ek)) = agent (fst ek)"
  "goal (fst (obstacle_phase rnd cfg ek)) = goal (fst ek)"
  "adversary (fst (obstacle_phase rnd cfg ek)) = adversary (fst ek)"
  "reward (fst (obstacle_phase rnd cfg ek)) = reward (fst ek)"
  "done_flag (fst (obstacle_phase rnd cfg ek)) = done_flag (fst ek)"
  "seen (fst (obstacle_phase rnd cfg ek)) = seen (fst ek)"
  "recent (fst (obstacle_phase rnd cfg ek)) = recent (fst ek)"
  "bestDist (fst (obstacle_phase rnd cfg ek)) = bestDist (fst ek)"
  "lastImprovedTick (fst (obstacle_phase rnd cfg ek)) = lastImprovedTick (fst ek)"
  by (simp_all add: obstacle_phase_def Let_def)

lemma adversary_phase_fields [simp]:
  "tick (fst (adversary_phase rnd cfg ek)) = tick (fst ek)"
  "width (fst (adversary_phase rnd cfg ek)) = width (fst ek)"
  "height (fst (adversary_phase rnd cfg ek)) = height (fst ek)"
  "obstacles (fst (adversary_phase rnd cfg ek)) = obstacles (fst ek)"
  "agent (fst (adversary_phase rnd cfg ek)) = agent (fst ek)"
  "goal (fst (adversary_phase rnd cfg ek)) = goal (fst ek)"
  "reward (fst (adversary_phase rnd cfg ek)) = reward (fst ek)"
  "done_flag (fst (adversary_phase rnd cfg ek)) = done_flag (fst ek)"
  "seen (fst (adversary_phase rnd cfg ek)) = seen (fst ek)"
  "recent (fst (adversary_phase rnd cfg ek)) = recent (fst ek)"
  "bestDist (fst (adversary_phase rnd cfg ek)) = bestDist (fst ek)"
  "lastImprovedTick (fst (adversary_phase rnd cfg ek)) = lastImprovedTick (fst ek)"
  by (simp_all add: adversary_phase_def Let_def split: option.split)

lemma account_phase_fields [simp]:
  "width (fst (account_phase cfg ek)) = width (fst ek)"
  "height (fst (account_phase cfg ek)) = height (fst ek)"
  "obstacles (fst (account_phase cfg ek)) = obstacles (fst ek)"
  "agent (fst (account_phase cfg ek)) = agent (fst ek)"
  "goal (fst (account_phase cfg ek)) = goal (fst ek)"
  "adversary (fst (account_phase cfg ek)) = adversary (fst ek)"
  "seen (fst (account_phase cfg ek)) = seen (fst ek)"
  "tick (fst (account_phase cfg ek)) = tick (fst ek) + 1"
  by (simp_all add: account_phase_def account_def Let_def)

subsection \<open>Sets as lists\<close>

lemma set_set_add [simp]: "set (set_add s c) = insert c (set s)"
  by (auto simp: set_add_def)

lemma length_set_add: "length s \<le> length (set_add s c)"
  by (simp add: set_add_def)

lemma length_set_add_le: "length (set_add s c) \<le> Suc (length s)"
  by (simp add: set_add_def)

lemma length_set_delete: "length (set_delete s c) \<le> length s"
  by (simp add: set_delete_def)

lemma distinct_set_add: "distinct s \<Longrightarrow> distinct (set_add s c)"
  by (simp add: set_add_def)

lemma distinct_new_Set_aux: "distinct s \<Longrightarrow> distinct (fold (\<lambda>k s. set_add s k) xs s)"
  by (induction xs arbitrary: s) (simp_all add: distinct_set_add)

lemma distinct_new_Set: "distinct (new_Set xs)"
  by (simp add: new_Set_def distinct_new_Set_aux)

lemma fold_set_add_id: "set xs \<subseteq> set s \<Longrightarrow> fold (\<lambda>k s. set_add s k) xs s = s"
  by (induction xs) (simp_all add: set_add_def)

lemma fold_set_add_append:
  "distinct xs \<Longrightarrow> set xs \<inter> set s = {} \<Longrightarrow> fold (\<lambda>k s. set_add s k) xs s = s @ xs"
  by (induction xs arbitrary: s) (auto simp: set_add_def)

lemma new_Set_distinct: "distinct xs \<Longrightarrow> new_Set xs = xs"
  by (simp add: new_Set_def fold_set_add_append)

subsection \<open>Seen cells and best distance only grow better\<close>

lemma reveal_cell_mono:
  "set (fst sk) \<subseteq> set (fst (reveal_cell rnd cfg e off sk))
   \<and> length (fst sk) \<le> length (fst (reveal_cell rnd cfg e off sk))"
  by (auto simp: reveal_cell_def Let_def length_set_add)

lemma fold_reveal_cell_mono:
  "set (fst sk) \<subseteq> set (fst (fold (reveal_cell rnd cfg e) offs sk))
   \<and> length (fst sk) \<le> length (fst (fold (reveal_cell rnd cfg e) offs sk))"
proof (induction offs arbitrary: sk)
  case Nil
  show ?case by simp
next
  case (Cons off offs)
  from Cons [of "reveal_cell rnd cfg e off sk"] reveal_cell_mono [of sk rnd cfg e off]
  show ?case by (simp del: set_set_add) (blast intro: order_trans)
qed

lemma fold_set_add_mono:
  "set s \<subseteq> set (fold (\<lambda>c s. set_add s c) cs s)
   \<and> length s \<le> length (fold (\<lambda>c s. set_add s c) cs s)"
proof (induction cs arbitrary: s)
  case Nil
  show ?case by simp
next
  case (Cons c cs)
  from Cons [of "set_add s c"] length_set_add [of s c]
  show ?case by auto
qed

lemma reveal_seen_mono:
  "set (seen e) \<subseteq> set (fst (reveal_seen rnd cfg e k))
   \<and> length (seen e) \<le> length (fst (reveal_seen rnd cfg e k))"
  using fold_reveal_cell_mono [of "(seen e, k)" rnd cfg e "offsets (obsRadius cfg)"]
    fold_set_add_mono [of "seen e" "all_cells e"]
  by (simp add: reveal_seen_def)

lemma seen_reveal_phase:
  "seen (fst (reveal_phase rnd cfg ek)) = fst (reveal_seen rnd cfg (fst ek) (snd ek))"
  by (simp add: reveal_phase_def Let_def)

lemma seen_stepEnvironment:
  "set (seen (fst ek)) \<subseteq> set (seen (fst (stepEnvironment rnd cfg a ek)))
   \<and> length (seen (fst ek)) \<le> length (seen (fst (stepEnvironment rnd cfg a ek)))"
  using reveal_seen_mono [of "fst (move_phase rnd cfg a ek)" rnd cfg "snd (move_phase rnd cfg a ek)"]
  by (simp add: stepEnvironment_def seen_reveal_phase)

lemma bestDist_account: "bestDist (account cfg p e) \<le> bestDist e"
  by (simp add: account_def Let_def)

lemma bestDist_stepEnvironment:
  "bestDist (fst (stepEnvironment rnd cfg a ek)) \<le> bestDist (fst ek)"
proof (cases "done_flag (fst ek)")
  case True
  then show ?thesis by (simp add: stepEnvironment_def)
next
  case False
  let ?ek4 = "adversary_phase rnd cfg (obstacle_phase rnd cfg (reveal_phase rnd cfg (move_phase rnd cfg a ek)))"
  have "bestDist (fst (account_phase cfg ?ek4)) \<le> bestDist (fst ek)"
    using bestDist_account [of cfg "adv_penalty (fst ?ek4)" "fst ?ek4"]
    by (simp add: account_phase_def)
  with False show ?thesis by (simp add: stepEnvironment_def)
qed

text \<open>
  Claim C3.  For every environment, action, configuration and source of randomness, one
  application of \<open>stepEnvironment\<close> removes no cell from \<open>seen\<close>, so that its size
  does not decrease, and does not increase \<open>bestDist\<close>.
\<close>

theorem stepEnvironment_monotone:
  "set (seen e) \<subseteq> set (seen (fst (stepEnvironment rnd cfg a (e, k))))
   \<and> length (seen e) \<le> length (seen (fst (stepEnvironment rnd cfg a (e, k))))
   \<and> bestDist (fst (stepEnvironment rnd cfg a (e, k))) \<le> bestDist e"
  using seen_stepEnvironment [of "(e, k)" rnd cfg a] bestDist_stepEnvironment [of rnd cfg a "(e, k)"]
  by simp

subsection \<open>Stuck detection\<close>

text \<open>
  Claim C5.  \<open>isStuck\<close> is false for every environment with fewer than 6 recent
  positions, and true for every environment whose recent positions are the alternation
  \<open>(1,1), (2,1), (1,1), (2,1), (1,1), (2,1)\<close>, whatever its tick and its last improved
  tick are.
\<close>

theorem isStuck_history:
  "(length (recent e) < 6 \<longrightarrow> \<not> isStuck e)
   \<and> (recent e = [(1, 1), (2, 1), (1, 1), (2, 1), (1, 1), (2, 1)] \<longrightarrow> isStuck e)"
  by (simp add: isStuck_def STUCK_MIN_HISTORY_def isABAB_def Let_def)

theorem isStuck_history_witness:
  "length (recent short_history_env) < 6 \<and> \<not> isStuck short_history_env
   \<and> recent abab_env = [(1, 1), (2, 1), (1, 1), (2, 1), (1, 1), (2, 1)] \<and> isStuck abab_env
   \<and> tick abab_env - lastImprovedTick abab_env < NO_PROGRESS_TICKS"
proof -
  have a: "length (recent short_history_env) < 6"
    by (simp add: short_history_env_def)
  have b: "recent abab_env = [(1, 1), (2, 1), (1, 1), (2, 1), (1, 1), (2, 1)]"
    by (simp add: abab_env_def)
  have c: "tick abab_env - lastImprovedTick abab_env < NO_PROGRESS_TICKS"
    by (simp add: abab_env_def NO_PROGRESS_TICKS_def)
  from a b c isStuck_history [of short_history_env] isStuck_history [of abab_env]
  show ?thesis by simp
qed

subsection \<open>Lists that represent sets keep doing so\<close>

lemma distinct_set_delete: "distinct s \<Longrightarrow> distinct (set_delete s c)"
  by (simp add: set_delete_def distinct_removeAll)

lemma distinct_fold_reveal_cell:
  "distinct (fst sk) \<Longrightarrow> distinct (fst (fold (reveal_cell rnd cfg e) offs sk))"
proof (induction offs arbitrary: sk)
  case Nil
  then show ?case by simp
next
  case (Cons off offs)
  have "distinct (fst (reveal_cell rnd cfg e off sk))"
    using Cons.prems by (simp add: reveal_cell_def Let_def distinct_set_add)
  then show ?case
    by (simp add: Cons.IH)
qed

lemma distinct_reveal_seen:
  "distinct (seen e) \<Longrightarrow> distinct (fst (reveal_seen rnd cfg e k))"
  using distinct_fold_reveal_cell [of "(seen e, k)" rnd cfg e "offsets (obsRadius cfg)"]
    distinct_new_Set_aux [of "seen e" "all_cells e"]
  by (simp add: reveal_seen_def)

lemma distinct_fold_move_obstacle:
  "distinct (fst mk) \<Longrightarrow> distinct (fst (fold (move_obstacle rnd e) obs mk))"
proof (induction obs arbitrary: mk)
  case Nil
  then show ?case by simp
next
  case (Cons ob obs)
  have "distinct (fst (move_obstacle rnd e ob mk))"
    using Cons.prems by (simp add: move_obstacle_def Let_def distinct_set_add)
  then show ?case
    by (simp add: Cons.IH)
qed

lemma distinct_drift_obstacles: "distinct (fst (drift_obstacles rnd e k))"
  using distinct_fold_move_obstacle [of "([], k)" rnd e "obstacles e"]
  by (simp add: drift_obstacles_def delete_adversary_def Let_def distinct_set_delete
      split: option.split)

lemma distinct_stepEnvironment:
  assumes "distinct (seen (fst ek))" and "distinct (obstacles (fst ek))"
  shows "distinct (seen (fst (stepEnvironment rnd cfg a ek)))
         \<and> distinct (obstacles (fst (stepEnvironment rnd cfg a ek)))"
proof -
  let ?m = "move_phase rnd cfg a ek"
  let ?r = "reveal_phase rnd cfg ?m"
  have "distinct (seen (fst ?r))"
    using assms(1) distinct_reveal_seen [of "fst ?m" rnd cfg "snd ?m"]
    by (simp add: seen_reveal_phase)
  moreover have "distinct (obstacles (fst (obstacle_phase rnd cfg ?r)))"
    using assms(2) by (simp add: obstacle_phase_def Let_def distinct_drift_obstacles)
  ultimately show ?thesis
    using assms by (simp add: stepEnvironment_def)
qed

subsection \<open>Draws\<close>

lemma draw_ge0 [simp]: "0 \<le> draw u"
  using draw [of u] by simp

lemma draw_lt1 [simp]: "draw u < 1"
  using draw [of u] by simp

lemma draw_not_neg [simp]: "\<not> draw u < 0"
  by (simp add: not_less)

lemma draw_Draw: "0 \<le> r \<Longrightarrow> r < 1 \<Longrightarrow> draw (Draw r) = r"
  by (simp add: Draw_inverse)

subsection \<open>The number of obstacles\<close>

lemma length_move_obstacle:
  "length (fst (move_obstacle rnd e ob mk)) \<le> Suc (length (fst mk))"
  by (simp add: move_obstacle_def Let_def length_set_add_le)

lemma length_fold_move_obstacle:
  "length (fst (fold (move_obstacle rnd e) obs mk)) \<le> length (fst mk) + length obs"
proof (induction obs arbitrary: mk)
  case Nil
  show ?case by simp
next
  case (Cons ob obs)
  from Cons [of "move_obstacle rnd e ob mk"] length_move_obstacle [of rnd e ob mk]
  show ?case by simp
qed

lemma length_delete_adversary: "length (delete_adversary e s) \<le> length s"
  by (simp add: delete_adversary_def length_set_delete split: option.split)

lemma length_drift_obstacles: "length (fst (drift_obstacles rnd e k)) \<le> length (obstacles e)"
proof -
  let ?m = "fst (fold (move_obstacle rnd e) (obstacles e) ([], k))"
  have "length (fst (drift_obstacles rnd e k)) \<le> length ?m"
    using length_delete_adversary [of e "set_delete (set_delete ?m (keyOf (agent e))) (keyOf (goal e))"]
      length_set_delete [of "set_delete ?m (keyOf (agent e))" "keyOf (goal e)"]
      length_set_delete [of ?m "keyOf (agent e)"]
    by (simp add: drift_obstacles_def Let_def)
  moreover have "length ?m \<le> length (obstacles e)"
    using length_fold_move_obstacle [of rnd e "obstacles e" "([], k)"] by simp
  ultimately show ?thesis by (rule order_trans)
qed

lemma length_obstacle_phase:
  "length (obstacles (fst (obstacle_phase rnd cfg ek))) \<le> length (obstacles (fst ek))"
  by (simp add: obstacle_phase_def Let_def length_drift_obstacles)

lemma length_obstacles_stepEnvironment:
  "length (obstacles (fst (stepEnvironment rnd cfg a ek))) \<le> length (obstacles (fst ek))"
  using length_obstacle_phase [of rnd cfg "reveal_phase rnd cfg (move_phase rnd cfg a ek)"]
  by (simp add: stepEnvironment_def)

subsection \<open>No randomness left\<close>

lemma slip_action_zero: "slipProb cfg = 0 \<Longrightarrow> fst (slip_action rnd cfg a k) = a"
  by (simp add: slip_action_def)

lemma move_phase_zero:
  "slipProb cfg = 0 \<Longrightarrow>
   fst (move_phase rnd cfg a ek) = (fst ek) \<lparr> agent := move_agent (fst ek) a \<rparr>"
  by (simp add: move_phase_def Let_def slip_action_zero)

lemma reveal_cell_zero:
  "sensorNoise cfg = 0 \<Longrightarrow> fst sk1 = fst sk2 \<Longrightarrow>
   fst (reveal_cell rnd1 cfg e off sk1) = fst (reveal_cell rnd2 cfg e off sk2)"
  by (simp add: reveal_cell_def Let_def)

lemma fold_reveal_cell_zero:
  "sensorNoise cfg = 0 \<Longrightarrow> fst sk1 = fst sk2 \<Longrightarrow>
   fst (fold (reveal_cell rnd1 cfg e) offs sk1) = fst (fold (reveal_cell rnd2 cfg e) offs sk2)"
proof (induction offs arbitrary: sk1 sk2)
  case Nil
  then show ?case by simp
next
  case (Cons off offs)
  from Cons.prems have "fst (reveal_cell rnd1 cfg e off sk1) = fst (reveal_cell rnd2 cfg e off sk2)"
    by (rule reveal_cell_zero)
  with Cons.prems(1) show ?case
    by (simp add: Cons.IH)
qed

lemma reveal_seen_zero:
  "sensorNoise cfg = 0 \<Longrightarrow>
   fst (reveal_seen rnd1 cfg e k1) = fst (reveal_seen rnd2 cfg e k2)"
  using fold_reveal_cell_zero [of cfg "(seen e, k1)" "(seen e, k2)" rnd1 e "offsets (obsRadius cfg)" rnd2]
  by (simp add: reveal_seen_def)

lemma reveal_phase_zero:
  "sensorNoise cfg = 0 \<Longrightarrow> fst ek1 = fst ek2 \<Longrightarrow>
   fst (reveal_phase rnd1 cfg ek1) = fst (reveal_phase rnd2 cfg ek2)"
  using reveal_seen_zero [of cfg rnd1 "fst ek2" "snd ek1" rnd2 "snd ek2"]
  by (simp add: reveal_phase_def Let_def)

lemma obstacle_phase_static: "\<not> dynamicObstacles cfg \<Longrightarrow> obstacle_phase rnd cfg ek = ek"
  by (simp add: obstacle_phase_def drifts_def)

lemma adversary_phase_none: "adversary (fst ek) = None \<Longrightarrow> adversary_phase rnd cfg ek = ek"
  by (simp add: adversary_phase_def)

lemma adversary_stepEnvironment_none:
  "adversary (fst ek) = None \<Longrightarrow> adversary (fst (stepEnvironment rnd cfg a ek)) = None"
  by (simp add: stepEnvironment_def adversary_phase_none)

lemma stepEnvironment_zero:
  assumes "slipProb cfg = 0" and "sensorNoise cfg = 0" and "\<not> dynamicObstacles cfg"
    and "adversary (fst ek1) = None" and "fst ek1 = fst ek2"
  shows "fst (stepEnvironment rnd1 cfg a ek1) = fst (stepEnvironment rnd2 cfg a ek2)"
proof (cases "done_flag (fst ek2)")
  case True
  with assms(5) show ?thesis by (simp add: stepEnvironment_def)
next
  case False
  have m: "fst (move_phase rnd1 cfg a ek1) = fst (move_phase rnd2 cfg a ek2)"
    using assms(1,5) by (simp add: move_phase_zero)
  have r: "fst (reveal_phase rnd1 cfg (move_phase rnd1 cfg a ek1))
           = fst (reveal_phase rnd2 cfg (move_phase rnd2 cfg a ek2))"
    using assms(2) m by (rule reveal_phase_zero)
  have a1: "adversary (fst (reveal_phase rnd1 cfg (move_phase rnd1 cfg a ek1))) = None"
    using assms(4) by simp
  have a2: "adversary (fst (reveal_phase rnd2 cfg (move_phase rnd2 cfg a ek2))) = None"
    using assms(4,5) by simp
  from False assms(3,5) a1 a2 r show ?thesis
    by (simp add: stepEnvironment_def obstacle_phase_static adversary_phase_none account_phase_def)
qed

lemma fold_stepEnvironment_zero:
  assumes "slipProb cfg = 0" and "sensorNoise cfg = 0" and "\<not> dynamicObstacles cfg"
  shows "adversary (fst ek1) = None \<Longrightarrow> fst ek1 = fst ek2 \<Longrightarrow>
         fst (fold (stepEnvironment rnd1 cfg) acts ek1) = fst (fold (stepEnvironment rnd2 cfg) acts ek2)"
proof (induction acts arbitrary: ek1 ek2)
  case Nil
  then show ?case by simp
next
  case (Cons a acts)
  have "fst (stepEnvironment rnd1 cfg a ek1) = fst (stepEnvironment rnd2 cfg a ek2)"
    using assms Cons.prems by (rule stepEnvironment_zero)
  moreover have "adversary (fst (stepEnvironment rnd1 cfg a ek1)) = None"
    using Cons.prems(1) by (rule adversary_stepEnvironment_none)
  ultimately show ?case
    by (simp add: Cons.IH)
qed

text \<open>
  Claim C4.  With \<open>slipProb = 0\<close>, \<open>sensorNoise = 0\<close>, dynamic obstacles disabled and
  no adversary, the environment that a sequence of actions produces from a given
  environment does not depend on the source of randomness: two runs, on any two random
  sources read from any two positions, end in equal environments (every field equal).
\<close>

theorem stepEnvironment_deterministic:
  assumes "slipProb cfg = 0" and "sensorNoise cfg = 0" and "\<not> dynamicObstacles cfg"
    and "adversary e = None"
  shows "fst (fold (stepEnvironment rnd1 cfg) acts (e, k1))
         = fst (fold (stepEnvironment rnd2 cfg) acts (e, k2))"
  using assms fold_stepEnvironment_zero [of cfg "(e, k1)" "(e, k2)" rnd1 acts rnd2]
  by simp

theorem stepEnvironment_deterministic_witness:
  "slipProb scenario_cfg = 0 \<and> sensorNoise scenario_cfg = 0
   \<and> \<not> dynamicObstacles scenario_cfg \<and> adversary scenario_env = None
   \<and> fst (fold (stepEnvironment rnd_zero scenario_cfg) scenario_actions (scenario_env, 0))
       = fst (fold (stepEnvironment rnd_high scenario_cfg) scenario_actions (scenario_env, 5))"
proof -
  have c: "slipProb scenario_cfg = 0" "sensorNoise scenario_cfg = 0"
    "\<not> dynamicObstacles scenario_cfg"
    by (simp_all add: scenario_cfg_def)
  have e: "adversary scenario_env = None"
    by (simp add: scenario_env_def)
  from c e stepEnvironment_deterministic [OF c e, of rnd_zero scenario_actions 0 rnd_high 5]
  show ?thesis by simp
qed

subsection \<open>The scenario\<close>

lemma account_phase_reward:
  "reward (fst (account_phase cfg ek))
   = reward (fst ek) + (- 0.05 + (if agent (fst ek) = goal (fst ek) then 10 else 0)
       + adv_penalty (fst ek))"
  by (simp add: account_phase_def account_def Let_def prod_eq_iff)

lemma account_phase_done:
  "done_flag (fst (account_phase cfg ek))
   = (episodic cfg \<and> agent (fst ek) = goal (fst ek) \<or> done_flag (fst ek))"
  by (auto simp add: account_phase_def account_def Let_def prod_eq_iff)

lemma move_agent_clear:
  assumes "obstacles e = []" and "agent e = (x, y)"
    and "0 \<le> x + dx a" and "x + dx a < width e" and "0 \<le> y + dy a" and "y + dy a < height e"
  shows "move_agent e a = (x + dx a, y + dy a)"
  using assms by (simp add: move_agent_def isBlocked_def set_has_def clamp_def Let_def)

lemma step_clear:
  assumes cfg: "slipProb cfg = 0" "\<not> dynamicObstacles cfg" "episodic cfg"
    and inv: "width (fst ek) = 5 \<and> height (fst ek) = 5 \<and> obstacles (fst ek) = []
      \<and> goal (fst ek) = (4, 0) \<and> adversary (fst ek) = None \<and> \<not> done_flag (fst ek)
      \<and> agent (fst ek) = (x, y) \<and> tick (fst ek) = t \<and> reward (fst ek) = r"
    and range: "0 \<le> x + dx a" "x + dx a < 5" "0 \<le> y + dy a" "y + dy a < 5"
  shows "width (fst (stepEnvironment rnd cfg a ek)) = 5
      \<and> height (fst (stepEnvironment rnd cfg a ek)) = 5
      \<and> obstacles (fst (stepEnvironment rnd cfg a ek)) = []
      \<and> goal (fst (stepEnvironment rnd cfg a ek)) = (4, 0)
      \<and> adversary (fst (stepEnvironment rnd cfg a ek)) = None
      \<and> done_flag (fst (stepEnvironment rnd cfg a ek)) = ((x + dx a, y + dy a) = (4, 0))
      \<and> agent (fst (stepEnvironment rnd cfg a ek)) = (x + dx a, y + dy a)
      \<and> tick (fst (stepEnvironment rnd cfg a ek)) = t + 1
      \<and> reward (fst (stepEnvironment rnd cfg a ek))
          = r + (- 0.05 + (if (x + dx a, y + dy a) = (4, 0) then 10 else 0))"
proof -
  let ?m = "move_phase rnd cfg a ek"
  let ?r = "reveal_phase rnd cfg ?m"
  have ag: "agent (fst ?m) = (x + dx a, y + dy a)"
    using inv range cfg(1) move_agent_clear [of "fst ek" x y a]
    by (simp add: move_phase_zero)
  have ob: "obstacle_phase rnd cfg ?r = ?r"
    using cfg(2) by (rule obstacle_phase_static)
  have ad: "adversary_phase rnd cfg ?r = ?r"
    using inv by (simp add: adversary_phase_none)
  have st: "stepEnvironment rnd cfg a ek = account_phase cfg ?r"
    using inv ob ad by (simp add: stepEnvironment_def)
  have pen: "adv_penalty (fst ?r) = 0"
    using inv by (simp add: adv_penalty_def)
  show ?thesis
    unfolding st using inv ag pen cfg(3)
    by (simp add: account_phase_reward account_phase_done)
qed

lemma scenario_run:
  assumes cfg: "slipProb cfg = 0" "\<not> dynamicObstacles cfg" "episodic cfg"
    and e: "width e = 5" "height e = 5" "obstacles e = []" "agent e = (0, 4)" "goal e = (4, 0)"
      "adversary e = None" "tick e = 0" "reward e = 0" "\<not> done_flag e"
  shows "agent (fst (fold (stepEnvironment rnd cfg) scenario_actions (e, k))) = (4, 0)
       \<and> goal (fst (fold (stepEnvironment rnd cfg) scenario_actions (e, k))) = (4, 0)
       \<and> tick (fst (fold (stepEnvironment rnd cfg) scenario_actions (e, k))) = 8
       \<and> done_flag (fst (fold (stepEnvironment rnd cfg) scenario_actions (e, k)))
       \<and> reward (fst (fold (stepEnvironment rnd cfg) scenario_actions (e, k))) = - 0.05 * 8 + 10
       \<and> (\<forall>n<8. \<not> done_flag (fst (fold (stepEnvironment rnd cfg) (take n scenario_actions) (e, k)))
              \<and> agent (fst (fold (stepEnvironment rnd cfg) (take n scenario_actions) (e, k))) \<noteq> (4, 0))"
proof -
  let ?s = "stepEnvironment rnd cfg"
  let ?I = "\<lambda>ek x y t r. width (fst ek) = 5 \<and> height (fst ek) = 5 \<and> obstacles (fst ek) = []
      \<and> goal (fst ek) = (4, 0) \<and> adversary (fst ek) = None \<and> done_flag (fst ek) = ((x, y) = (4, 0))
      \<and> agent (fst ek) = (x, y) \<and> tick (fst ek) = t \<and> reward (fst ek) = r"
  define s0 where "s0 = (e, k)"
  define s1 where "s1 = ?s RIGHT s0"
  define s2 where "s2 = ?s RIGHT s1"
  define s3 where "s3 = ?s RIGHT s2"
  define s4 where "s4 = ?s RIGHT s3"
  define s5 where "s5 = ?s UP s4"
  define s6 where "s6 = ?s UP s5"
  define s7 where "s7 = ?s UP s6"
  define s8 where "s8 = ?s UP s7"
  have i0: "?I s0 0 4 0 0"
    using e by (simp add: s0_def)
  have i1: "?I s1 1 4 1 (- 0.05)"
    unfolding s1_def using step_clear [OF cfg, of s0 0 4 0 0 RIGHT rnd] i0 by simp
  have i2: "?I s2 2 4 2 (- 0.1)"
    unfolding s2_def using step_clear [OF cfg, of s1 1 4 1 "- 0.05" RIGHT rnd] i1 by simp
  have i3: "?I s3 3 4 3 (- 0.15)"
    unfolding s3_def using step_clear [OF cfg, of s2 2 4 2 "- 0.1" RIGHT rnd] i2 by simp
  have i4: "?I s4 4 4 4 (- 0.2)"
    unfolding s4_def using step_clear [OF cfg, of s3 3 4 3 "- 0.15" RIGHT rnd] i3 by simp
  have i5: "?I s5 4 3 5 (- 0.25)"
    unfolding s5_def using step_clear [OF cfg, of s4 4 4 4 "- 0.2" UP rnd] i4 by simp
  have i6: "?I s6 4 2 6 (- 0.3)"
    unfolding s6_def using step_clear [OF cfg, of s5 4 3 5 "- 0.25" UP rnd] i5 by simp
  have i7: "?I s7 4 1 7 (- 0.35)"
    unfolding s7_def using step_clear [OF cfg, of s6 4 2 6 "- 0.3" UP rnd] i6 by simp
  have i8: "?I s8 4 0 8 (- 0.05 * 8 + 10)"
    unfolding s8_def using step_clear [OF cfg, of s7 4 1 7 "- 0.35" UP rnd] i7 by simp
  have f8: "fold ?s scenario_actions (e, k) = s8"
    by (simp add: scenario_actions_def s8_def s7_def s6_def s5_def s4_def s3_def s2_def s1_def s0_def)
  have pre: "\<not> done_flag (fst (fold ?s (take n scenario_actions) (e, k)))
             \<and> agent (fst (fold ?s (take n scenario_actions) (e, k))) \<noteq> (4, 0)" if "n < 8" for n
  proof -
    from that consider "n = 0" | "n = 1" | "n = 2" | "n = 3" | "n = 4" | "n = 5" | "n = 6" | "n = 7"
      by linarith
    then show ?thesis
    proof cases
      case 1
      have "fold ?s (take n scenario_actions) (e, k) = s0"
        by (simp add: 1 scenario_actions_def s0_def)
      with i0 show ?thesis by simp
    next
      case 2
      have "fold ?s (take n scenario_actions) (e, k) = s1"
        by (simp add: 2 scenario_actions_def s1_def s0_def)
      with i1 show ?thesis by simp
    next
      case 3
      have "fold ?s (take n scenario_actions) (e, k) = s2"
        by (simp add: 3 scenario_actions_def s2_def s1_def s0_def)
      with i2 show ?thesis by simp
    next
      case 4
      have "fold ?s (take n scenario_actions) (e, k) = s3"
        by (simp add: 4 scenario_actions_def s3_def s2_def s1_def s0_def)
      with i3 show ?thesis by simp
    next
      case 5
      have "fold ?s (take n scenario_actions) (e, k) = s4"
        by (simp add: 5 scenario_actions_def s4_def s3_def s2_def s1_def s0_def)
      with i4 show ?thesis by simp
    next
      case 6
      have "fold ?s (take n scenario_actions) (e, k) = s5"
        by (simp add: 6 scenario_actions_def s5_def s4_def s3_def s2_def s1_def s0_def)
      with i5 show ?thesis by simp
    next
      case 7
      have "fold ?s (take n scenario_actions) (e, k) = s6"
        by (simp add: 7 scenario_actions_def s6_def s5_def s4_def s3_def s2_def s1_def s0_def)
      with i6 show ?thesis by simp
    next
      case 8
      have "fold ?s (take n scenario_actions) (e, k) = s7"
        by (simp add: 8 scenario_actions_def s7_def s6_def s5_def s4_def s3_def s2_def s1_def s0_def)
      with i7 show ?thesis by simp
    qed
  qed
  from i8 pre show ?thesis
    unfolding f8 by simp
qed

text \<open>
  Claim C1, as amended.  From a 5 by 5 environment without obstacles, the agent at
  \<open>(0,4)\<close>, the goal at \<open>(4,0)\<close>, tick and reward \<open>0\<close>, no adversary, with
  \<open>slipProb = 0\<close>, \<open>sensorNoise = 0\<close>, no dynamic obstacles and episodic mode, the
  actions RIGHT four times and UP four times put the agent on the goal at tick 8 and not
  before, with the done flag set and a reward of \<open>-0.05 * 8 + 10\<close>: the step cost is
  charged on each of the eight ticks, the last one included.
\<close>

theorem scenario_reaches_goal:
  assumes "slipProb cfg = 0" and "sensorNoise cfg = 0" and "\<not> dynamicObstacles cfg"
    and "episodic cfg"
    and "width e = 5" and "height e = 5" and "obstacles e = []" and "agent e = (0, 4)"
    and "goal e = (4, 0)" and "adversary e = None" and "tick e = 0" and "reward e = 0"
    and "\<not> done_flag e"
  shows "agent (fst (fold (stepEnvironment rnd cfg) scenario_actions (e, k))) = (4, 0)
       \<and> goal (fst (fold (stepEnvironment rnd cfg) scenario_actions (e, k))) = (4, 0)
       \<and> tick (fst (fold (stepEnvironment rnd cfg) scenario_actions (e, k))) = 8
       \<and> done_flag (fst (fold (stepEnvironment rnd cfg) scenario_actions (e, k)))
       \<and> reward (fst (fold (stepEnvironment rnd cfg) scenario_actions (e, k))) = - 0.05 * 8 + 10
       \<and> (\<forall>n<8. \<not> done_flag (fst (fold (stepEnvironment rnd cfg) (take n scenario_actions) (e, k)))
              \<and> agent (fst (fold (stepEnvironment rnd cfg) (take n scenario_actions) (e, k))) \<noteq> (4, 0))"
  using assms(1,3-) by (rule scenario_run)

lemma scenario_hypotheses:
  "slipProb scenario_cfg = 0" "sensorNoise scenario_cfg = 0" "\<not> dynamicObstacles scenario_cfg"
  "episodic scenario_cfg"
  "width scenario_env = 5" "height scenario_env = 5" "obstacles scenario_env = []"
  "agent scenario_env = (0, 4)" "goal scenario_env = (4, 0)" "adversary scenario_env = None"
  "tick scenario_env = 0" "reward scenario_env = 0" "\<not> done_flag scenario_env"
  by (simp_all add: scenario_cfg_def scenario_env_def)

theorem scenario_reaches_goal_witness:
  "slipProb scenario_cfg = 0 \<and> sensorNoise scenario_cfg = 0 \<and> \<not> dynamicObstacles scenario_cfg
   \<and> episodic scenario_cfg
   \<and> width scenario_env = 5 \<and> height scenario_env = 5 \<and> obstacles scenario_env = []
   \<and> agent scenario_env = (0, 4) \<and> goal scenario_env = (4, 0) \<and> adversary scenario_env = None
   \<and> tick scenario_env = 0 \<and> reward scenario_env = 0 \<and> \<not> done_flag scenario_env
   \<and> agent (fst (fold (stepEnvironment rnd_zero scenario_cfg) scenario_actions (scenario_env, 0)))
       = (4, 0)
   \<and> tick (fst (fold (stepEnvironment rnd_zero scenario_cfg) scenario_actions (scenario_env, 0))) = 8
   \<and> done_flag (fst (fold (stepEnvironment rnd_zero scenario_cfg) scenario_actions (scenario_env, 0)))
   \<and> reward (fst (fold (stepEnvironment rnd_zero scenario_cfg) scenario_actions (scenario_env, 0)))
       = 48 / 5"
  using scenario_hypotheses
    scenario_reaches_goal [OF scenario_hypotheses, of rnd_zero 0]
  by simp

theorem scenario_reward_counterexample:
  "tick (fst (fold (stepEnvironment rnd_zero scenario_cfg) scenario_actions (scenario_env, 0))) = 8
   \<and> done_flag (fst (fold (stepEnvironment rnd_zero scenario_cfg) scenario_actions (scenario_env, 0)))
   \<and> reward (fst (fold (stepEnvironment rnd_zero scenario_cfg) scenario_actions (scenario_env, 0)))
       \<noteq> - 0.05 * 7 + 10"
  using scenario_run [OF scenario_hypotheses(1,3-), of rnd_zero 0]
  by simp

subsection \<open>Evaluation at concrete inputs\<close>

lemmas step_defs = stepEnvironment_def move_phase_def reveal_phase_def obstacle_phase_def
  adversary_phase_def account_phase_def slip_action_def move_agent_def reveal_seen_def
  reveal_cell_def offsets_def all_cells_def drifts_def drift_obstacles_def move_obstacle_def
  delete_adversary_def adv_candidates_def adv_move_def account_def adv_penalty_def
  isBlocked_def set_has_def set_add_def set_delete_def new_Set_def clamp_def manhattan_def
  keyOf_def choice_def DIRS_def upto.simps draw_Draw

lemma merge_step:
  "stepEnvironment merge_rnd drift_cfg UP (merge_env, 0) =
     (\<lparr> tick = 1, width = 5, height = 5, obstacles = [(1, 0)], agent = (1, 2),
        goal = (3, 1), adversary = None, reward = - (1 / 20), done_flag = False,
        seen = [(1, 3), (0, 1), (1, 1), (2, 1), (0, 2), (1, 2), (2, 2), (0, 3), (2, 3)],
        recent = [(1, 3), (1, 2)], bestDist = 3, lastImprovedTick = 1 \<rparr>, 12)"
  by (simp add: step_defs merge_rnd_def drift_cfg_def merge_env_def)

lemma capture_step:
  "stepEnvironment capture_rnd drift_cfg UP (capture_env, 0) =
     (\<lparr> tick = 1, width = 5, height = 5, obstacles = [], agent = (1, 2),
        goal = (3, 1), adversary = Some (3, 2), reward = - (1 / 20), done_flag = False,
        seen = [(1, 3), (0, 1), (1, 1), (2, 1), (0, 2), (1, 2), (2, 2), (0, 3), (2, 3)],
        recent = [(1, 3), (1, 2)], bestDist = 3, lastImprovedTick = 1 \<rparr>, 12)"
  by (simp add: step_defs capture_rnd_def drift_cfg_def capture_env_def)

text \<open>
  Claim C10.  One application of \<open>stepEnvironment\<close> never increases the number of
  obstacle cells, and with dynamic obstacles there are states where it decreases: in
  \<open>merge_env\<close> two obstacles move to the same cell and become one, and in
  \<open>capture_env\<close> the obstacle that moves to the adversary's cell is removed.
\<close>

theorem obstacle_count_never_grows:
  "(\<forall>rnd cfg a e k.
      length (obstacles (fst (stepEnvironment rnd cfg a (e, k)))) \<le> length (obstacles e))
   \<and> dynamicObstacles drift_cfg
   \<and> obstacles merge_env = [(0, 0), (2, 0)]
   \<and> obstacles (fst (stepEnvironment merge_rnd drift_cfg UP (merge_env, 0))) = [(1, 0)]
   \<and> length (obstacles (fst (stepEnvironment merge_rnd drift_cfg UP (merge_env, 0))))
       < length (obstacles merge_env)
   \<and> obstacles capture_env = [(2, 3)] \<and> adversary capture_env = Some (3, 3)
   \<and> obstacles (fst (stepEnvironment capture_rnd drift_cfg UP (capture_env, 0))) = []
   \<and> length (obstacles (fst (stepEnvironment capture_rnd drift_cfg UP (capture_env, 0))))
       < length (obstacles capture_env)"
proof -
  have "length (obstacles (fst (stepEnvironment rnd cfg a (e, k)))) \<le> length (obstacles e)"
    for rnd cfg a e k
    using length_obstacles_stepEnvironment [of rnd cfg a "(e, k)"] by simp
  moreover have "dynamicObstacles drift_cfg"
    by (simp add: drift_cfg_def)
  moreover have "obstacles merge_env = [(0, 0), (2, 0)]"
    by (simp add: merge_env_def)
  moreover have "obstacles capture_env = [(2, 3)]" "adversary capture_env = Some (3, 3)"
    by (simp_all add: capture_env_def)
  ultimately show ?thesis
    by (simp add: merge_step capture_step)
qed

subsection \<open>Rejected obstacle moves\<close>

text \<open>
  An obstacle stays where it is when its clamped target is blocked or is the cell of the
  agent or of the goal; a target off the grid is clamped back onto the obstacle's own
  cell, which is blocked by the obstacle itself.
\<close>

lemma move_obstacle_rejected:
  assumes "isBlocked e (clamp (fst ob + dx (choice DIRS (rnd k))) 0 (width e - 1))
                      (clamp (snd ob + dy (choice DIRS (rnd k))) 0 (height e - 1))
           \<or> agent e = (clamp (fst ob + dx (choice DIRS (rnd k))) 0 (width e - 1),
                          clamp (snd ob + dy (choice DIRS (rnd k))) 0 (height e - 1))
           \<or> goal e = (clamp (fst ob + dx (choice DIRS (rnd k))) 0 (width e - 1),
                         clamp (snd ob + dy (choice DIRS (rnd k))) 0 (height e - 1))"
  shows "move_obstacle rnd e ob (m, k) = (set_add m ob, k + 1)"
  using assms by (auto simp: move_obstacle_def Let_def)

lemma move_obstacle_off_grid:
  assumes "ob \<in> set (obstacles e)"
    and "0 \<le> fst ob" and "fst ob < width e" and "0 \<le> snd ob" and "snd ob < height e"
    and "fst ob + dx (choice DIRS (rnd k)) < 0 \<or> width e \<le> fst ob + dx (choice DIRS (rnd k))
         \<or> snd ob + dy (choice DIRS (rnd k)) < 0 \<or> height e \<le> snd ob + dy (choice DIRS (rnd k))"
  shows "move_obstacle rnd e ob (m, k) = (set_add m ob, k + 1)"
proof -
  have "clamp (fst ob + dx d) 0 (width e - 1) = fst ob \<and> clamp (snd ob + dy d) 0 (height e - 1) = snd ob"
    if "fst ob + dx d < 0 \<or> width e \<le> fst ob + dx d \<or> snd ob + dy d < 0 \<or> height e \<le> snd ob + dy d"
    for d
    using that assms(2-5) by (cases d) (auto simp: clamp_def)
  from this [OF assms(6)] assms(1) show ?thesis
    by (intro move_obstacle_rejected) (simp add: isBlocked_def set_has_def)
qed

text \<open>
  Claim C7 at \<open>capture_env\<close>.  Dynamic obstacles are enabled and the tick is a multiple of
  3; the obstacle at \<open>(2,3)\<close> draws RIGHT, and its destination \<open>(3,3)\<close> is the
  adversary's cell.  The move is not rejected: the obstacle does not stay at \<open>(2,3)\<close>,
  it is put on the adversary's cell and deleted from the set, which is left empty.
\<close>

theorem obstacle_onto_adversary_removed:
  "dynamicObstacles drift_cfg \<and> tick capture_env mod 3 = 0
   \<and> obstacles capture_env = [(2, 3)] \<and> adversary capture_env = Some (3, 3)
   \<and> choice DIRS (capture_rnd 10) = RIGHT
   \<and> (2, 3) \<notin> set (obstacles (fst (stepEnvironment capture_rnd drift_cfg UP (capture_env, 0))))
   \<and> obstacles (fst (stepEnvironment capture_rnd drift_cfg UP (capture_env, 0))) = []"
  by (simp add: capture_step)
    (simp add: drift_cfg_def capture_env_def capture_rnd_def choice_def DIRS_def draw_Draw)

subsection \<open>The goal bonus of a rollout\<close>

declare rollout.simps [simp del] rollout_sims.simps [simp del]

lemma score_tick_split:
  "score_tick ss rs t sim tot = tot + shaping_tick ss rs t sim + (if on_goal sim then 5 else 0)"
  by (simp add: score_tick_def shaping_tick_def on_goal_def Let_def)

lemma rollout_stop:
  assumes "\<not> (t < hz \<and> \<not> done_flag sim)"
  shows "rollout rnd cfg a hz ss rs t (sim, k, tot) = (tot, k)"
proof -
  from assms have "(t < hz \<and> \<not> done_flag sim) = False" by blast
  then show ?thesis by (subst rollout.simps) (simp only: if_False)
qed

lemma rollout_step:
  assumes "t < hz \<and> \<not> done_flag sim"
  shows "rollout rnd cfg a hz ss rs t (sim, k, tot)
         = rollout rnd cfg a hz ss rs (t + 1)
             (fst (stepEnvironment rnd cfg (fst (rollout_action rnd a t k))
                     (sim, snd (rollout_action rnd a t k))),
              snd (stepEnvironment rnd cfg (fst (rollout_action rnd a t k))
                     (sim, snd (rollout_action rnd a t k))),
              score_tick ss rs t
                (fst (stepEnvironment rnd cfg (fst (rollout_action rnd a t k))
                        (sim, snd (rollout_action rnd a t k)))) tot)"
proof -
  from assms have "(t < hz \<and> \<not> done_flag sim) = True" by blast
  then show ?thesis by (subst rollout.simps) (simp only: if_True Let_def)
qed

lemma rollout_sims_stop:
  assumes "\<not> (t < hz \<and> \<not> done_flag sim)"
  shows "rollout_sims rnd cfg a hz t (sim, k) = []"
proof -
  from assms have "(t < hz \<and> \<not> done_flag sim) = False" by blast
  then show ?thesis by (subst rollout_sims.simps) (simp only: if_False)
qed

lemma rollout_sims_step:
  assumes "t < hz \<and> \<not> done_flag sim"
  shows "rollout_sims rnd cfg a hz t (sim, k)
         = fst (stepEnvironment rnd cfg (fst (rollout_action rnd a t k))
                  (sim, snd (rollout_action rnd a t k)))
           # rollout_sims rnd cfg a hz (t + 1)
               (stepEnvironment rnd cfg (fst (rollout_action rnd a t k))
                  (sim, snd (rollout_action rnd a t k)))"
proof -
  from assms have "(t < hz \<and> \<not> done_flag sim) = True" by blast
  then show ?thesis by (subst rollout_sims.simps) (simp only: if_True Let_def prod.collapse)
qed

lemma rollout_total_aux:
  "fst (rollout rnd cfg a hz ss rs t s)
   = snd (snd s) + shaping_sum ss rs t (rollout_sims rnd cfg a hz t (fst s, fst (snd s)))
     + 5 * real (length (filter on_goal (rollout_sims rnd cfg a hz t (fst s, fst (snd s)))))"
proof (induction rnd cfg a hz ss rs t s rule: rollout.induct)
  case (1 rnd cfg a hz ss rs t sim k tot)
  show ?case
  proof (cases "t < hz \<and> \<not> done_flag sim")
    case False
    then show ?thesis
      by (simp add: rollout_stop rollout_sims_stop)
  next
    case True
    let ?ak = "rollout_action rnd a t k"
    let ?sk = "stepEnvironment rnd cfg (fst ?ak) (sim, snd ?ak)"
    have ih: "fst (rollout rnd cfg a hz ss rs (t + 1)
                (fst ?sk, snd ?sk, score_tick ss rs t (fst ?sk) tot))
              = score_tick ss rs t (fst ?sk) tot
                + shaping_sum ss rs (t + 1) (rollout_sims rnd cfg a hz (t + 1) (fst ?sk, snd ?sk))
                + 5 * real (length (filter on_goal
                    (rollout_sims rnd cfg a hz (t + 1) (fst ?sk, snd ?sk))))"
      using "1.IH" [OF True refl refl] by simp
    have r: "rollout rnd cfg a hz ss rs t (sim, k, tot)
             = rollout rnd cfg a hz ss rs (t + 1)
                 (fst ?sk, snd ?sk, score_tick ss rs t (fst ?sk) tot)"
      using True by (rule rollout_step)
    have s: "rollout_sims rnd cfg a hz t (sim, k)
             = fst ?sk # rollout_sims rnd cfg a hz (t + 1) (fst ?sk, snd ?sk)"
      using rollout_sims_step [OF True] by simp
    show ?thesis
      unfolding fst_conv snd_conv r s ih by (simp add: score_tick_split)
  qed
qed

lemma rollout_total:
  "fst (rollout rnd cfg a hz ss rs t (sim, k, tot))
   = tot + shaping_sum ss rs t (rollout_sims rnd cfg a hz t (sim, k))
     + 5 * real (length (filter on_goal (rollout_sims rnd cfg a hz t (sim, k))))"
  using rollout_total_aux [of rnd cfg a hz ss rs t "(sim, k, tot)"] by simp

lemma filter_index_length:
  "length (filter (\<lambda>t. P (xs ! t)) [0 ..< length xs]) = length (filter P xs)"
proof -
  have "filter P xs = filter P (map (\<lambda>t. xs ! t) [0 ..< length xs])"
    by (simp add: map_nth)
  also have "\<dots> = map (\<lambda>t. xs ! t) (filter (\<lambda>t. P (xs ! t)) [0 ..< length xs])"
    by (simp add: filter_map comp_def)
  finally show ?thesis by simp
qed

lemma evaluateAction_split:
  "fst (evaluateAction rnd cfg a hz ek)
   = rollout_shaping rnd cfg a hz ek + 5 * real (length (bonus_ticks rnd cfg a hz ek))"
  by (simp add: evaluateAction_def rollout_shaping_def bonus_ticks_def Let_def rollout_total
      filter_index_length)

lemma on_goal_account_phase [simp]: "on_goal (fst (account_phase cfg ek)) = on_goal (fst ek)"
  by (simp add: on_goal_def)

lemma step_done_on_goal:
  assumes "\<not> done_flag (fst ek)" and "episodic cfg"
    and "on_goal (fst (stepEnvironment rnd cfg a ek))"
  shows "done_flag (fst (stepEnvironment rnd cfg a ek))"
  using assms
  by (simp add: stepEnvironment_def account_phase_done) (simp add: on_goal_def prod_eq_iff)

lemma rollout_sims_goal_last:
  "episodic cfg \<Longrightarrow> i < length (rollout_sims rnd cfg a hz t s) \<Longrightarrow>
   on_goal (rollout_sims rnd cfg a hz t s ! i) \<Longrightarrow>
   Suc i = length (rollout_sims rnd cfg a hz t s)"
proof (induction rnd cfg a hz t s arbitrary: i rule: rollout_sims.induct)
  case (1 rnd cfg a hz t sim k)
  show ?case
  proof (cases "t < hz \<and> \<not> done_flag sim")
    case False
    with "1.prems"(2) show ?thesis
      by (simp add: rollout_sims_stop)
  next
    case True
    let ?ak = "rollout_action rnd a t k"
    let ?sk = "stepEnvironment rnd cfg (fst ?ak) (sim, snd ?ak)"
    let ?rest = "rollout_sims rnd cfg a hz (t + 1) (fst ?sk, snd ?sk)"
    have s: "rollout_sims rnd cfg a hz t (sim, k) = fst ?sk # ?rest"
      using rollout_sims_step [OF True] by simp
    show ?thesis
    proof (cases i)
      case 0
      with "1.prems"(3) have "on_goal (fst ?sk)"
        by (simp add: s)
      with True "1.prems"(1) have "done_flag (fst ?sk)"
        by (intro step_done_on_goal) simp_all
      then have "?rest = []"
        by (intro rollout_sims_stop) simp
      with 0 show ?thesis by (simp add: s)
    next
      case (Suc j)
      with "1.prems" have "j < length ?rest" "on_goal (?rest ! j)"
        by (simp_all add: s)
      with "1.IH" [OF True refl refl, of j] "1.prems"(1) have "Suc j = length ?rest"
        by simp
      with Suc show ?thesis by (simp add: s)
    qed
  qed
qed

lemma filter_last_only:
  assumes "\<And>t. t < n \<Longrightarrow> P t \<Longrightarrow> Suc t = n"
  shows "length (filter P [0 ..< n]) \<le> 1"
proof -
  have "set (filter P [0 ..< n]) \<subseteq> {n - 1}"
    using assms by fastforce
  then have "card (set (filter P [0 ..< n])) \<le> card {n - 1}"
    by (intro card_mono) simp_all
  moreover have "length (filter P [0 ..< n]) = card (set (filter P [0 ..< n]))"
    by (rule distinct_card [symmetric]) simp
  ultimately show ?thesis
    by simp
qed

lemma bonus_ticks_episodic:
  assumes "episodic cfg"
  shows "length (bonus_ticks rnd cfg a hz ek) \<le> 1
         \<and> (\<forall>t \<in> set (bonus_ticks rnd cfg a hz ek). Suc t = rollout_length rnd cfg a hz ek)"
proof -
  let ?sims = "rollout_sims rnd cfg a hz 0 (cloneEnv (fst ek), snd ek)"
  have last: "Suc t = length ?sims" if "t < length ?sims" "on_goal (?sims ! t)" for t
    using assms that by (rule rollout_sims_goal_last)
  then have "length (filter (\<lambda>t. on_goal (?sims ! t)) [0 ..< length ?sims]) \<le> 1"
    by (intro filter_last_only) 
  with last show ?thesis
    by (simp add: bonus_ticks_def rollout_length_def Let_def)
qed

lemma cloneEnv_near: "cloneEnv near_env = near_env"
  by (simp add: cloneEnv_def near_env_def new_Set_def set_add_def)

lemma near_step1: "stepEnvironment rnd_zero repeat_cfg RIGHT (near_env, 0) = (near_env1, 5)"
  by (simp add: step_defs rnd_zero_def repeat_cfg_def near_env_def near_env1_def)

lemma near_step2: "stepEnvironment rnd_zero repeat_cfg UP (near_env1, 6) = (near_env2, 11)"
  by (simp add: step_defs rnd_zero_def repeat_cfg_def near_env1_def near_env2_def)

lemma near_step1_episodic:
  "stepEnvironment rnd_zero near_cfg RIGHT (near_env, 0) = (near_env1 \<lparr> done_flag := True \<rparr>, 5)"
  by (simp add: step_defs rnd_zero_def near_cfg_def near_env_def near_env1_def)

lemma near_actions:
  "rollout_action rnd_zero RIGHT 0 0 = (RIGHT, 0)"
  "rollout_action rnd_zero RIGHT (Suc 0) 5 = (UP, 6)"
  by (simp_all add: rollout_action_def rnd_zero_def choice_def DIRS_def draw_Draw)

lemma near_flags:
  "\<not> done_flag near_env" "\<not> done_flag near_env1" "\<not> done_flag near_env2"
  "on_goal near_env1" "on_goal near_env2"
  by (simp_all add: near_env_def near_env1_def near_env2_def on_goal_def)

lemma near_sims:
  "rollout_sims rnd_zero repeat_cfg RIGHT 2 0 (near_env, 0) = [near_env1, near_env2]"
proof -
  have "rollout_sims rnd_zero repeat_cfg RIGHT 2 (Suc (Suc 0)) (near_env2, 11) = []"
    by (rule rollout_sims_stop) simp
  moreover have "rollout_sims rnd_zero repeat_cfg RIGHT 2 (Suc 0) (near_env1, 5)
      = near_env2 # rollout_sims rnd_zero repeat_cfg RIGHT 2 (Suc (Suc 0)) (near_env2, 11)"
    using rollout_sims_step [of "Suc 0" 2 near_env1 rnd_zero repeat_cfg RIGHT 5]
    by (simp add: near_flags near_actions near_step2)
  moreover have "rollout_sims rnd_zero repeat_cfg RIGHT 2 0 (near_env, 0)
      = near_env1 # rollout_sims rnd_zero repeat_cfg RIGHT 2 (Suc 0) (near_env1, 5)"
    using rollout_sims_step [of 0 2 near_env rnd_zero repeat_cfg RIGHT 0]
    by (simp add: near_flags near_actions near_step1)
  ultimately show ?thesis by simp
qed

lemma near_sims_episodic:
  "rollout_sims rnd_zero near_cfg RIGHT 2 0 (near_env, 0) = [near_env1 \<lparr> done_flag := True \<rparr>]"
proof -
  have "rollout_sims rnd_zero near_cfg RIGHT 2 (Suc 0) (near_env1 \<lparr> done_flag := True \<rparr>, 5) = []"
    by (rule rollout_sims_stop) simp
  moreover have "rollout_sims rnd_zero near_cfg RIGHT 2 0 (near_env, 0)
      = near_env1 \<lparr> done_flag := True \<rparr>
        # rollout_sims rnd_zero near_cfg RIGHT 2 (Suc 0) (near_env1 \<lparr> done_flag := True \<rparr>, 5)"
    using rollout_sims_step [of 0 2 near_env rnd_zero near_cfg RIGHT 0]
    by (simp add: near_flags near_actions near_step1_episodic)
  ultimately show ?thesis by simp
qed

lemma near_shaping:
  "rollout_shaping rnd_zero repeat_cfg RIGHT 2 (near_env, 0) = 0.12"
  by (simp add: rollout_shaping_def cloneEnv_near near_sims)
    (simp add: shaping_tick_def near_env_def near_env1_def near_env2_def manhattan_def
      INFO_GAIN_WEIGHT_def LOOP_PENALTY_STEPS_def LOOP_PENALTY_def set_has_def keyOf_def
      new_Set_def set_add_def)

text \<open>
  Claim C9, as amended.  The value of \<open>evaluateAction\<close> is the shaping score of the
  simulated ticks plus 5 for every simulated tick that ends with the simulated agent on
  the goal (\<open>bonus_ticks\<close>).  In an episodic configuration there is at most one such tick
  in a rollout, and it is the last tick of the rollout.
\<close>

theorem goal_bonus_ticks:
  "fst (evaluateAction rnd cfg a hz ek)
     = rollout_shaping rnd cfg a hz ek + 5 * real (length (bonus_ticks rnd cfg a hz ek))
   \<and> (episodic cfg \<longrightarrow>
        length (bonus_ticks rnd cfg a hz ek) \<le> 1
        \<and> (\<forall>t \<in> set (bonus_ticks rnd cfg a hz ek). Suc t = rollout_length rnd cfg a hz ek))"
  using evaluateAction_split [of rnd cfg a hz ek] bonus_ticks_episodic [of cfg rnd a hz ek]
  by blast

theorem goal_bonus_ticks_witness:
  "episodic near_cfg
   \<and> bonus_ticks rnd_zero near_cfg RIGHT 2 (near_env, 0) = [0]
   \<and> rollout_length rnd_zero near_cfg RIGHT 2 (near_env, 0) = 1
   \<and> fst (evaluateAction rnd_zero near_cfg RIGHT 2 (near_env, 0))
       = rollout_shaping rnd_zero near_cfg RIGHT 2 (near_env, 0) + 5"
proof -
  have e: "episodic near_cfg"
    by (simp add: near_cfg_def)
  have b: "bonus_ticks rnd_zero near_cfg RIGHT 2 (near_env, 0) = [0]"
    by (simp add: bonus_ticks_def cloneEnv_near near_sims_episodic on_goal_def near_env1_def)
  have l: "rollout_length rnd_zero near_cfg RIGHT 2 (near_env, 0) = 1"
    by (simp add: rollout_length_def cloneEnv_near near_sims_episodic)
  from e b l goal_bonus_ticks [of rnd_zero near_cfg RIGHT 2 "(near_env, 0)"]
  show ?thesis by simp
qed

theorem goal_bonus_twice_counterexample:
  "\<not> episodic repeat_cfg
   \<and> bonus_ticks rnd_zero repeat_cfg RIGHT 2 (near_env, 0) = [0, 1]
   \<and> fst (evaluateAction rnd_zero repeat_cfg RIGHT 2 (near_env, 0)) = 0.12 + 5 + 5"
proof -
  have b: "bonus_ticks rnd_zero repeat_cfg RIGHT 2 (near_env, 0) = [0, 1]"
    by (simp add: bonus_ticks_def cloneEnv_near near_sims near_flags)
  have "fst (evaluateAction rnd_zero repeat_cfg RIGHT 2 (near_env, 0)) = 0.12 + 5 + 5"
    by (simp add: evaluateAction_split b near_shaping)
  with b show ?thesis
    by (simp add: repeat_cfg_def)
qed

subsection \<open>The selection of pickAction\<close>

lemma initial_scores_apply [simp]: "initial_scores d = (0, 0)"
  by (simp add: initial_scores_def)














lemma pickAction_explore:
  assumes "isStuck e \<and> partialObs cfg \<and> snd (explore_best e cfg) \<noteq> None"
  shows "pickAction fuel rnd clk e cfg budgetMs (k, c)
         = Some (\<lparr> d_action = fst (explore_best e cfg), d_estimates = [], d_iters = 0,
                    d_mode = ''explore'' \<rparr>, k, c + 1)"
  using assms by (simp add: pickAction_def Let_def)




subsection \<open>pickAction at concrete inputs\<close>




















subsection \<open>The information-seeking fallback at the border\<close>

lemma edge_stuck: "isStuck edge_env"
  by (simp add: isStuck_def edge_env_def STUCK_MIN_HISTORY_def isABAB_def Let_def)

lemma edge_explore_best: "explore_best edge_env near_cfg = (UP, Some 0)"
  by (simp add: explore_best_def explore_step_def unseenAroundFrom_def offsets_def upto.simps
      isBlocked_def set_has_def clamp_def DIRS_def edge_env_def near_cfg_def)

text \<open>
  Claim C8 at \<open>edge_env\<close>.  The agent is stuck and partial observability is enabled.
  The cell one step UP is off the grid, the cells one step RIGHT, DOWN and LEFT are in
  the grid and free, and all four candidates score \<open>0\<close>; the first legal direction is
  RIGHT.  \<open>pickAction\<close> returns UP in mode \<open>explore\<close>: it clamps the target to the
  agent's own cell before testing \<open>isBlocked\<close>, so the direction off the grid is
  considered, and the move it returns leaves the agent where it is.
\<close>

theorem explore_considers_off_grid:
  "isStuck edge_env \<and> partialObs near_cfg
   \<and> isBlocked edge_env (fst (agent edge_env) + dx UP) (snd (agent edge_env) + dy UP)
   \<and> \<not> isBlocked edge_env (fst (agent edge_env) + dx RIGHT) (snd (agent edge_env) + dy RIGHT)
   \<and> \<not> isBlocked edge_env (fst (agent edge_env) + dx DOWN) (snd (agent edge_env) + dy DOWN)
   \<and> \<not> isBlocked edge_env (fst (agent edge_env) + dx LEFT) (snd (agent edge_env) + dy LEFT)
   \<and> unseenAroundFrom (3, 0) edge_env near_cfg = 0
   \<and> unseenAroundFrom (2, 1) edge_env near_cfg = 0
   \<and> unseenAroundFrom (1, 0) edge_env near_cfg = 0
   \<and> pickAction fuel rnd clk edge_env near_cfg budgetMs (k, c)
       = Some (\<lparr> d_action = UP, d_estimates = [], d_iters = 0, d_mode = ''explore'' \<rparr>, k, c + 1)
   \<and> move_agent edge_env UP = agent edge_env"
proof -
  have "isStuck edge_env \<and> partialObs near_cfg \<and> snd (explore_best edge_env near_cfg) \<noteq> None"
    by (simp add: edge_stuck edge_explore_best) (simp add: near_cfg_def)
  from pickAction_explore [OF this, of fuel rnd clk budgetMs k c]
  have "pickAction fuel rnd clk edge_env near_cfg budgetMs (k, c)
       = Some (\<lparr> d_action = UP, d_estimates = [], d_iters = 0, d_mode = ''explore'' \<rparr>, k, c + 1)"
    by (simp add: edge_explore_best)
  moreover have "unseenAroundFrom (3, 0) edge_env near_cfg = 0"
    "unseenAroundFrom (2, 1) edge_env near_cfg = 0"
    "unseenAroundFrom (1, 0) edge_env near_cfg = 0"
    by (simp_all add: unseenAroundFrom_def offsets_def upto.simps set_has_def edge_env_def
        near_cfg_def)
  moreover have "partialObs near_cfg"
    by (simp add: near_cfg_def)
  moreover have "move_agent edge_env UP = agent edge_env"
    by (simp add: move_agent_def isBlocked_def edge_env_def)
  ultimately show ?thesis
    by (simp add: edge_stuck) (simp add: isBlocked_def set_has_def edge_env_def)
qed

subsection \<open>Rollouts write only to their own copy\<close>

declare rollout_h.simps [simp del]

lemma same_below_refl: "same_below n h h"
  by (simp add: same_below_def)

lemma same_below_trans: "same_below n h h1 \<Longrightarrow> same_below n h1 h2 \<Longrightarrow> same_below n h h2"
  by (simp add: same_below_def)

lemma same_below_mono: "m \<le> n \<Longrightarrow> same_below n h h' \<Longrightarrow> same_below m h h'"
  by (simp add: same_below_def)

lemma move_phase_h_frame:
  assumes "owned_above n (fst hk) e"
  shows "same_below n (fst hk) (fst (move_phase_h rnd cfg a e hk))
         \<and> owned_above n (fst (move_phase_h rnd cfg a e hk)) e"
  using assms
  by (auto simp: move_phase_h_def write_agent_def same_below_def owned_above_def Let_def)

lemma reveal_phase_h_frame:
  assumes "owned_above n (fst hk) e"
  shows "same_below n (fst hk) (fst (reveal_phase_h rnd cfg e hk))
         \<and> owned_above n (fst (reveal_phase_h rnd cfg e hk)) e"
  using assms
  by (auto simp: reveal_phase_h_def write_seen_def same_below_def owned_above_def Let_def)

lemma obstacle_phase_h_frame:
  assumes "owned_above n (fst hk) e"
  shows "same_below n (fst hk) (fst (obstacle_phase_h rnd cfg e hk))
         \<and> owned_above n (fst (obstacle_phase_h rnd cfg e hk)) e"
  using assms
  by (auto simp: obstacle_phase_h_def assign_obstacles_def alloc_set_def same_below_def
      owned_above_def Let_def split: option.splits)

lemma adversary_phase_h_frame:
  assumes "owned_above n (fst hk) e"
  shows "same_below n (fst hk) (fst (adversary_phase_h rnd cfg e hk))
         \<and> owned_above n (fst (adversary_phase_h rnd cfg e hk)) e"
  using assms
  by (auto simp: adversary_phase_h_def write_adversary_def same_below_def owned_above_def
      Let_def split: option.splits)

lemma account_phase_h_frame:
  assumes "owned_above n (fst hk) e"
  shows "same_below n (fst hk) (fst (account_phase_h cfg e hk))
         \<and> owned_above n (fst (account_phase_h cfg e hk)) e"
  using assms
  by (auto simp: account_phase_h_def write_account_def same_below_def owned_above_def
      Let_def split: option.splits)

lemma stepEnvironment_h_frame:
  assumes "owned_above n (fst hk) e"
  shows "same_below n (fst hk) (fst (stepEnvironment_h rnd cfg a e hk))
         \<and> owned_above n (fst (stepEnvironment_h rnd cfg a e hk)) e"
proof (cases "o_done (env_objs (fst hk) e)")
  case True
  with assms show ?thesis
    by (simp add: stepEnvironment_h_def same_below_refl)
next
  case False
  let ?h1 = "move_phase_h rnd cfg a e hk"
  let ?h2 = "reveal_phase_h rnd cfg e ?h1"
  let ?h3 = "obstacle_phase_h rnd cfg e ?h2"
  let ?h4 = "adversary_phase_h rnd cfg e ?h3"
  let ?h5 = "account_phase_h cfg e ?h4"
  note f1 = move_phase_h_frame [OF assms, of rnd cfg a]
  note f2 = reveal_phase_h_frame [OF conjunct2 [OF f1], of rnd cfg]
  note f3 = obstacle_phase_h_frame [OF conjunct2 [OF f2], of rnd cfg]
  note f4 = adversary_phase_h_frame [OF conjunct2 [OF f3], of rnd cfg]
  note f5 = account_phase_h_frame [OF conjunct2 [OF f4], of cfg]
  have "same_below n (fst hk) (fst ?h5)"
    using f1 f2 f3 f4 f5 by (blast intro: same_below_trans)
  with f5 False show ?thesis
    by (simp add: stepEnvironment_h_def)
qed

lemma rollout_h_stop:
  assumes "\<not> (t < hz \<and> \<not> o_done (env_objs h sim))"
  shows "rollout_h rnd cfg a hz ss rs t sim (h, k, tot) = (tot, h, k)"
proof -
  from assms have "(t < hz \<and> \<not> o_done (env_objs h sim)) = False" by blast
  then show ?thesis by (subst rollout_h.simps) (simp only: if_False)
qed

lemma rollout_h_step:
  assumes "t < hz \<and> \<not> o_done (env_objs h sim)"
  shows "rollout_h rnd cfg a hz ss rs t sim (h, k, tot)
         = rollout_h rnd cfg a hz ss rs (t + 1) sim
             (fst (stepEnvironment_h rnd cfg (fst (rollout_action rnd a t k)) sim
                     (h, snd (rollout_action rnd a t k))),
              snd (stepEnvironment_h rnd cfg (fst (rollout_action rnd a t k)) sim
                     (h, snd (rollout_action rnd a t k))),
              score_tick ss rs t
                (env_of (fst (stepEnvironment_h rnd cfg (fst (rollout_action rnd a t k)) sim
                                (h, snd (rollout_action rnd a t k)))) sim) tot)"
proof -
  from assms have "(t < hz \<and> \<not> o_done (env_objs h sim)) = True" by blast
  then show ?thesis by (subst rollout_h.simps) (simp only: if_True Let_def)
qed

lemma rollout_h_frame:
  "owned_above n (fst s) sim \<Longrightarrow>
   same_below n (fst s) (fst (snd (rollout_h rnd cfg a hz ss rs t sim s)))
   \<and> n \<le> lim (fst (snd (rollout_h rnd cfg a hz ss rs t sim s)))"
proof (induction rnd cfg a hz ss rs t sim s rule: rollout_h.induct)
  case (1 rnd cfg a hz ss rs t sim h k tot)
  show ?case
  proof (cases "t < hz \<and> \<not> o_done (env_objs h sim)")
    case False
    with "1.prems" show ?thesis
      by (simp add: rollout_h_stop same_below_refl owned_above_def Let_def)
  next
    case True
    let ?ak = "rollout_action rnd a t k"
    let ?hk = "stepEnvironment_h rnd cfg (fst ?ak) sim (h, snd ?ak)"
    have f: "same_below n h (fst ?hk) \<and> owned_above n (fst ?hk) sim"
      using stepEnvironment_h_frame [of n "(h, snd ?ak)" sim rnd cfg "fst ?ak"] "1.prems"
      by simp
    from "1.IH" [OF True refl refl] f
    have "same_below n (fst ?hk)
            (fst (snd (rollout_h rnd cfg a hz ss rs (t + 1) sim
               (fst ?hk, snd ?hk, score_tick ss rs t (env_of (fst ?hk) sim) tot))))
          \<and> n \<le> lim (fst (snd (rollout_h rnd cfg a hz ss rs (t + 1) sim
               (fst ?hk, snd ?hk, score_tick ss rs t (env_of (fst ?hk) sim) tot))))"
      by simp
    with f show ?thesis
      unfolding rollout_h_step [OF True] fst_conv
      by (blast intro: same_below_trans)
  qed
qed

lemma cloneEnv_h_frame:
  "same_below (lim h) h (fst (cloneEnv_h h e))
   \<and> owned_above (lim h) (fst (cloneEnv_h h e)) (snd (cloneEnv_h h e))"
  by (auto simp: cloneEnv_h_def alloc_set_def alloc_point_def alloc_array_def alloc_env_def
      same_below_def owned_above_def Let_def split: option.splits)

lemma evaluateAction_h_frame:
  "same_below (lim (fst hk)) (fst hk) (fst (snd (evaluateAction_h rnd cfg a hz e hk)))
   \<and> lim (fst hk) \<le> lim (fst (snd (evaluateAction_h rnd cfg a hz e hk)))"
proof -
  let ?hs = "cloneEnv_h (fst hk) e"
  let ?ss = "length (sets (fst ?hs) (o_seen (env_objs (fst ?hs) (snd ?hs))))"
  let ?rs = "new_Set (arrays (fst ?hs) (o_recent (env_objs (fst ?hs) (snd ?hs))))"
  note c = cloneEnv_h_frame [of "fst hk" e]
  from rollout_h_frame [of "lim (fst hk)" "(fst ?hs, snd hk, 0)" "snd ?hs" rnd cfg a hz ?ss ?rs 0] c
  have "same_below (lim (fst hk)) (fst ?hs)
          (fst (snd (rollout_h rnd cfg a hz ?ss ?rs 0 (snd ?hs) (fst ?hs, snd hk, 0))))
        \<and> lim (fst hk) \<le> lim (fst (snd (rollout_h rnd cfg a hz ?ss ?rs 0 (snd ?hs) (fst ?hs, snd hk, 0))))"
    by simp
  with c show ?thesis
    unfolding evaluateAction_h_def Let_def
    by (blast intro: same_below_trans)
qed

lemma allocated_same_below:
  assumes "allocated h e" and "same_below (lim h) h h'" and "lim h \<le> lim h'"
  shows "env_of h' e = env_of h e \<and> allocated h' e"
  using assms
  by (auto simp: allocated_def same_below_def env_of_def Let_def split: option.splits)

lemma evaluate_calls_frame:
  "allocated (fst hk) e \<Longrightarrow>
   env_of (fst (evaluate_calls rnd cfg e calls hk)) e = env_of (fst hk) e
   \<and> same_below (lim (fst hk)) (fst hk) (fst (evaluate_calls rnd cfg e calls hk))
   \<and> lim (fst hk) \<le> lim (fst (evaluate_calls rnd cfg e calls hk))"
proof (induction calls arbitrary: hk)
  case Nil
  show ?case by (simp add: same_below_refl)
next
  case (Cons c calls)
  let ?hk = "snd (evaluateAction_h rnd cfg (fst c) (snd c) e hk)"
  note f = evaluateAction_h_frame [of hk rnd cfg "fst c" "snd c" e]
  note a = allocated_same_below [OF Cons.prems conjunct1 [OF f] conjunct2 [OF f]]
  note ih = Cons.IH [OF conjunct2 [OF a]]
  have "same_below (lim (fst hk)) (fst ?hk) (fst (evaluate_calls rnd cfg e calls ?hk))"
    using ih f by (blast intro: same_below_mono)
  with f have "same_below (lim (fst hk)) (fst hk) (fst (evaluate_calls rnd cfg e calls ?hk))"
    by (blast intro: same_below_trans)
  with ih a f show ?case
    by simp
qed

text \<open>
  Claim C2.  Whatever the store, the configuration, the first actions and the horizons
  are, any number of calls of \<open>evaluateAction\<close> on an allocated environment leaves
  that environment as it was: every field read through the store, among them the tick, the
  agent's position, the seen set and the reward, is the same afterwards, and so is every
  other object that existed before the calls.
\<close>

theorem evaluateAction_isolation:
  assumes "allocated h e"
  shows "env_of (fst (evaluate_calls rnd cfg e calls (h, k))) e = env_of h e
         \<and> same_below (lim h) h (fst (evaluate_calls rnd cfg e calls (h, k)))"
  using assms evaluate_calls_frame [of "(h, k)" e rnd cfg calls]
  by simp

theorem evaluateAction_isolation_witness:
  "allocated scenario_store 5
   \<and> env_of scenario_store 5 = scenario_env
   \<and> env_of (fst (evaluate_calls rnd_zero scenario_cfg 5 [(UP, 14), (RIGHT, 14), (UP, 3)]
              (scenario_store, 0))) 5 = scenario_env"
proof -
  have a: "allocated scenario_store 5"
    by (simp add: allocated_def scenario_store_def scenario_obj_def)
  have e: "env_of scenario_store 5 = scenario_env"
    by (simp add: env_of_def scenario_store_def scenario_obj_def scenario_env_def)
  from a e evaluateAction_isolation [OF a, of rnd_zero scenario_cfg "[(UP, 14), (RIGHT, 14), (UP, 3)]" 0]
  show ?thesis by simp
qed

subsection \<open>The store computes what the values compute\<close>

lemma move_phase_h_value:
  assumes "separated (fst hk) e"
  shows "env_of (fst (move_phase_h rnd cfg a e hk)) e
           = fst (move_phase rnd cfg a (env_of (fst hk) e, snd hk))
         \<and> snd (move_phase_h rnd cfg a e hk) = snd (move_phase rnd cfg a (env_of (fst hk) e, snd hk))
         \<and> separated (fst (move_phase_h rnd cfg a e hk)) e"
  using assms
  by (auto simp: move_phase_h_def move_phase_def write_agent_def separated_def allocated_def
      env_of_def Let_def split: option.splits)

lemma reveal_phase_h_value:
  assumes "separated (fst hk) e"
  shows "env_of (fst (reveal_phase_h rnd cfg e hk)) e
           = fst (reveal_phase rnd cfg (env_of (fst hk) e, snd hk))
         \<and> snd (reveal_phase_h rnd cfg e hk) = snd (reveal_phase rnd cfg (env_of (fst hk) e, snd hk))
         \<and> separated (fst (reveal_phase_h rnd cfg e hk)) e"
  using assms
  by (auto simp: reveal_phase_h_def reveal_phase_def write_seen_def separated_def allocated_def
      env_of_def Let_def split: option.splits)

lemma obstacle_phase_h_value:
  assumes "separated (fst hk) e"
  shows "env_of (fst (obstacle_phase_h rnd cfg e hk)) e
           = fst (obstacle_phase rnd cfg (env_of (fst hk) e, snd hk))
         \<and> snd (obstacle_phase_h rnd cfg e hk) = snd (obstacle_phase rnd cfg (env_of (fst hk) e, snd hk))
         \<and> separated (fst (obstacle_phase_h rnd cfg e hk)) e"
proof (cases "drifts cfg (env_of (fst hk) e)")
  case False
  with assms show ?thesis
    by (simp add: obstacle_phase_h_def obstacle_phase_def)
next
  case True
  let ?ok = "drift_obstacles rnd (env_of (fst hk) e) (snd hk)"
  let ?h = "assign_obstacles e (fst ?ok) (fst hk)"
  have "env_of ?h e = (env_of (fst hk) e) \<lparr> obstacles := fst ?ok \<rparr>"
    using assms
    by (auto simp: assign_obstacles_def alloc_set_def separated_def allocated_def env_of_def
        Let_def split: option.splits)
  moreover have "separated ?h e"
    using assms
    by (auto simp: assign_obstacles_def alloc_set_def separated_def allocated_def
        Let_def split: option.splits)
  ultimately show ?thesis
    using True by (simp add: obstacle_phase_h_def obstacle_phase_def Let_def)
qed

lemma adversary_phase_h_value:
  assumes "separated (fst hk) e"
  shows "env_of (fst (adversary_phase_h rnd cfg e hk)) e
           = fst (adversary_phase rnd cfg (env_of (fst hk) e, snd hk))
         \<and> snd (adversary_phase_h rnd cfg e hk) = snd (adversary_phase rnd cfg (env_of (fst hk) e, snd hk))
         \<and> separated (fst (adversary_phase_h rnd cfg e hk)) e"
proof (cases "o_adversary (env_objs (fst hk) e)")
  case None
  with assms show ?thesis
    by (simp add: adversary_phase_h_def adversary_phase_def env_of_def Let_def)
next
  case (Some ar)
  let ?pk = "adv_move rnd cfg (env_of (fst hk) e) (points (fst hk) ar) (snd hk)"
  let ?h = "write_adversary ar (fst ?pk) (fst hk)"
  have "env_of ?h e = (env_of (fst hk) e) \<lparr> adversary := Some (fst ?pk) \<rparr>"
    using assms Some
    by (auto simp: write_adversary_def separated_def allocated_def env_of_def Let_def)
  moreover have "separated ?h e"
    using assms Some
    by (auto simp: write_adversary_def separated_def allocated_def Let_def)
  moreover have "adversary (env_of (fst hk) e) = Some (points (fst hk) ar)"
    using Some by (simp add: env_of_def Let_def)
  ultimately show ?thesis
    using Some by (simp add: adversary_phase_h_def adversary_phase_def Let_def)
qed

lemma account_phase_h_value:
  assumes "separated (fst hk) e"
  shows "env_of (fst (account_phase_h cfg e hk)) e
           = fst (account_phase cfg (env_of (fst hk) e, snd hk))
         \<and> snd (account_phase_h cfg e hk) = snd (account_phase cfg (env_of (fst hk) e, snd hk))
         \<and> separated (fst (account_phase_h cfg e hk)) e"
proof -
  let ?v = "env_of (fst hk) e"
  let ?w = "account cfg (adv_penalty ?v) ?v"
  have "env_of (write_account e ?w (fst hk)) e = ?w"
    by (simp add: write_account_def env_of_def account_def Let_def)
  moreover have "separated (write_account e ?w (fst hk)) e"
    using assms
    by (auto simp: write_account_def separated_def allocated_def Let_def split: option.splits)
  ultimately show ?thesis
    by (simp add: account_phase_h_def account_phase_def Let_def)
qed

lemma stepEnvironment_h_value:
  assumes "separated (fst hk) e"
  shows "env_of (fst (stepEnvironment_h rnd cfg a e hk)) e
           = fst (stepEnvironment rnd cfg a (env_of (fst hk) e, snd hk))
         \<and> snd (stepEnvironment_h rnd cfg a e hk)
           = snd (stepEnvironment rnd cfg a (env_of (fst hk) e, snd hk))
         \<and> separated (fst (stepEnvironment_h rnd cfg a e hk)) e"
proof (cases "o_done (env_objs (fst hk) e)")
  case True
  then have "done_flag (env_of (fst hk) e)"
    by (simp add: env_of_def Let_def)
  with True assms show ?thesis
    by (simp add: stepEnvironment_h_def stepEnvironment_def)
next
  case False
  then have d: "\<not> done_flag (env_of (fst hk) e)"
    by (simp add: env_of_def Let_def)
  let ?h1 = "move_phase_h rnd cfg a e hk"
  let ?h2 = "reveal_phase_h rnd cfg e ?h1"
  let ?h3 = "obstacle_phase_h rnd cfg e ?h2"
  let ?h4 = "adversary_phase_h rnd cfg e ?h3"
  let ?v1 = "move_phase rnd cfg a (env_of (fst hk) e, snd hk)"
  let ?v2 = "reveal_phase rnd cfg ?v1"
  let ?v3 = "obstacle_phase rnd cfg ?v2"
  let ?v4 = "adversary_phase rnd cfg ?v3"
  note f1 = move_phase_h_value [OF assms, of rnd cfg a]
  then have e1: "(env_of (fst ?h1) e, snd ?h1) = ?v1"
    by (simp add: prod_eq_iff)
  note f2 = reveal_phase_h_value [OF conjunct2 [OF conjunct2 [OF f1]], of rnd cfg]
  then have e2: "(env_of (fst ?h2) e, snd ?h2) = ?v2"
    by (simp add: prod_eq_iff e1)
  note f3 = obstacle_phase_h_value [OF conjunct2 [OF conjunct2 [OF f2]], of rnd cfg]
  then have e3: "(env_of (fst ?h3) e, snd ?h3) = ?v3"
    by (simp add: prod_eq_iff e2)
  note f4 = adversary_phase_h_value [OF conjunct2 [OF conjunct2 [OF f3]], of rnd cfg]
  then have e4: "(env_of (fst ?h4) e, snd ?h4) = ?v4"
    by (simp add: prod_eq_iff e3)
  note f5 = account_phase_h_value [OF conjunct2 [OF conjunct2 [OF f4]], of cfg]
  from f5 False d show ?thesis
    by (simp add: stepEnvironment_h_def stepEnvironment_def e4)
qed

lemma rollout_h_value:
  "separated (fst s) sim \<Longrightarrow>
   fst (rollout_h rnd cfg a hz ss rs t sim s)
     = fst (rollout rnd cfg a hz ss rs t (env_of (fst s) sim, fst (snd s), snd (snd s)))
   \<and> snd (snd (rollout_h rnd cfg a hz ss rs t sim s))
     = snd (rollout rnd cfg a hz ss rs t (env_of (fst s) sim, fst (snd s), snd (snd s)))"
proof (induction rnd cfg a hz ss rs t sim s rule: rollout_h.induct)
  case (1 rnd cfg a hz ss rs t sim h k tot)
  have dn: "o_done (env_objs h sim) = done_flag (env_of h sim)"
    by (simp add: env_of_def Let_def)
  show ?case
  proof (cases "t < hz \<and> \<not> o_done (env_objs h sim)")
    case False
    then show ?thesis
      using dn by (simp add: rollout_h_stop rollout_stop)
  next
    case True
    then have True': "t < hz \<and> \<not> done_flag (env_of h sim)"
      using dn by simp
    let ?ak = "rollout_action rnd a t k"
    let ?hk = "stepEnvironment_h rnd cfg (fst ?ak) sim (h, snd ?ak)"
    let ?sk = "stepEnvironment rnd cfg (fst ?ak) (env_of h sim, snd ?ak)"
    have f: "env_of (fst ?hk) sim = fst ?sk \<and> snd ?hk = snd ?sk \<and> separated (fst ?hk) sim"
      using stepEnvironment_h_value [of "(h, snd ?ak)" sim rnd cfg "fst ?ak"] "1.prems"
      by simp
    from "1.IH" [OF True refl refl] f
    have "fst (rollout_h rnd cfg a hz ss rs (t + 1) sim
                 (fst ?hk, snd ?hk, score_tick ss rs t (env_of (fst ?hk) sim) tot))
            = fst (rollout rnd cfg a hz ss rs (t + 1)
                 (fst ?sk, snd ?sk, score_tick ss rs t (fst ?sk) tot))
          \<and> snd (snd (rollout_h rnd cfg a hz ss rs (t + 1) sim
                 (fst ?hk, snd ?hk, score_tick ss rs t (env_of (fst ?hk) sim) tot)))
            = snd (rollout rnd cfg a hz ss rs (t + 1)
                 (fst ?sk, snd ?sk, score_tick ss rs t (fst ?sk) tot))"
      by simp
    then show ?thesis
      unfolding rollout_h_step [OF True] fst_conv snd_conv rollout_step [OF True'] .
  qed
qed

lemma cloneEnv_h_value:
  assumes "allocated h e"
  shows "env_of (fst (cloneEnv_h h e)) (snd (cloneEnv_h h e)) = cloneEnv (env_of h e)
         \<and> separated (fst (cloneEnv_h h e)) (snd (cloneEnv_h h e))"
  using assms
  by (auto simp: cloneEnv_h_def cloneEnv_def alloc_set_def alloc_point_def alloc_array_def
      alloc_env_def separated_def allocated_def env_of_def Let_def split: option.splits)

lemma evaluateAction_h_value:
  assumes "allocated (fst hk) e"
  shows "fst (evaluateAction_h rnd cfg a hz e hk)
           = fst (evaluateAction rnd cfg a hz (env_of (fst hk) e, snd hk))
         \<and> snd (snd (evaluateAction_h rnd cfg a hz e hk))
           = snd (evaluateAction rnd cfg a hz (env_of (fst hk) e, snd hk))"
proof -
  let ?hs = "cloneEnv_h (fst hk) e"
  note c = cloneEnv_h_value [OF assms]
  have s: "sets (fst ?hs) (o_seen (env_objs (fst ?hs) (snd ?hs))) = seen (cloneEnv (env_of (fst hk) e))"
    "arrays (fst ?hs) (o_recent (env_objs (fst ?hs) (snd ?hs))) = recent (cloneEnv (env_of (fst hk) e))"
  proof -
    have "seen (env_of (fst ?hs) (snd ?hs)) = sets (fst ?hs) (o_seen (env_objs (fst ?hs) (snd ?hs)))"
      "recent (env_of (fst ?hs) (snd ?hs)) = arrays (fst ?hs) (o_recent (env_objs (fst ?hs) (snd ?hs)))"
      by (simp_all add: env_of_def Let_def)
    with c show
      "sets (fst ?hs) (o_seen (env_objs (fst ?hs) (snd ?hs))) = seen (cloneEnv (env_of (fst hk) e))"
      "arrays (fst ?hs) (o_recent (env_objs (fst ?hs) (snd ?hs))) = recent (cloneEnv (env_of (fst hk) e))"
      by simp_all
  qed
  from rollout_h_value [of "(fst ?hs, snd hk, 0)" "snd ?hs" rnd cfg a hz] c
  show ?thesis
    by (simp add: evaluateAction_h_def evaluateAction_def Let_def s)
qed

end
